theory Spec2Isabelle
  imports Complex_Main "HOL-Library.Sublist"
begin

section \<open>Python values shared by the two applications\<close>

text \<open>
  A Python \<open>str\<close> is modelled as an Isabelle \<open>string\<close>: a list of characters whose
  \<open>length\<close> is Python's \<open>len\<close>. Python's \<open>int\<close> is unbounded; positions and counts that
  the code only ever produces as non-negative numbers are computed in \<open>nat\<close> and stored
  as \<open>int\<close> in the dataclass fields. Python \<open>float\<close>s (similarity scores, embedding
  components) are idealised as \<open>real\<close>.
\<close>

datatype wiki_error =
    DisambiguationError "string list"
  | PageError
  | OtherWikipediaException

datatype error =
    AssertionError
  | IndexError
  | ValidationError
  | ValueError
  | WikipediaException wiki_error
  | OtherException string

definition is_space :: "char \<Rightarrow> bool" where
  \<comment> \<open>\<open>str.isspace\<close> on one character, which is also what \<open>str.strip()\<close> and the
      regular expression class \<open>\s\<close> test.\<close>
  "is_space c = (of_char c \<in> set [9, 10, 11, 12, 13, 28, 29, 30, 31, 32, 133, 160 :: nat])"

definition is_digit :: "char \<Rightarrow> bool" where
  "is_digit c = (48 \<le> (of_char c :: nat) \<and> (of_char c :: nat) \<le> 57)"

definition strip :: "string \<Rightarrow> string" where
  \<comment> \<open>\<open>s.strip()\<close>\<close>
  "strip s = rev (dropWhile is_space (rev (dropWhile is_space s)))"

definition slice :: "'a list \<Rightarrow> nat \<Rightarrow> nat \<Rightarrow> 'a list" where
  \<comment> \<open>\<open>xs[lo:hi]\<close> for non-negative bounds; Python clips both to the length.\<close>
  "slice xs lo hi = take (hi - lo) (drop lo xs)"

definition rfind :: "char \<Rightarrow> string \<Rightarrow> nat \<Rightarrow> nat \<Rightarrow> int" where
  \<comment> \<open>\<open>s.rfind(c, lo, hi)\<close> for non-negative bounds: the highest index in
      \<open>[lo, min hi (len s))\<close> holding \<open>c\<close>, or \<open>-1\<close>.\<close>
  "rfind c s lo hi =
     (case filter (\<lambda>i. s ! i = c) (rev [lo ..< min hi (length s)]) of
        [] \<Rightarrow> - 1
      | i # _ \<Rightarrow> int i)"

section \<open>Wikipedia RAG: configuration\<close>

definition WIKIPEDIA_SEARCH_RESULTS :: nat where "WIKIPEDIA_SEARCH_RESULTS = 8"
definition CHUNK_SIZE :: nat where "CHUNK_SIZE = 600"
definition CHUNK_OVERLAP :: nat where "CHUNK_OVERLAP = 100"
definition MAX_CHUNKS_PER_ARTICLE :: nat where "MAX_CHUNKS_PER_ARTICLE = 15"
definition TOP_K_RETRIEVAL :: int where "TOP_K_RETRIEVAL = 8"
definition MIN_SIMILARITY_THRESHOLD :: real where "MIN_SIMILARITY_THRESHOLD = 6 / 10"
definition MAX_CONTEXT_LENGTH :: nat where "MAX_CONTEXT_LENGTH = 2000"
definition EMBEDDING_DIM :: nat where "EMBEDDING_DIM = 768"

section \<open>Wikipedia RAG: chunking\<close>

record WikipediaChunk =
  text_c :: string
  title :: string
  url :: string
  chunk_id :: int
  start_pos :: int
  end_pos :: int

definition window_end :: "string \<Rightarrow> nat \<Rightarrow> nat" where
  \<comment> \<open>The value of \<open>end\<close> after the sentence-boundary adjustment of one loop iteration
      of \<open>chunk_text\<close>.\<close>
  "window_end txt start =
     (let end0 = min (start + CHUNK_SIZE) (length txt) in
      if end0 < length txt then
        (let sentence_end = rfind CHR ''.'' txt start (end0 + CHUNK_OVERLAP) in
         if sentence_end \<noteq> - 1 \<and> sentence_end > int (start + CHUNK_SIZE div 2)
         then nat (sentence_end + 1) else end0)
      else end0)"

definition next_start :: "string \<Rightarrow> nat \<Rightarrow> nat" where
  \<comment> \<open>\<open>start = max(start + CHUNK_SIZE - CHUNK_OVERLAP, end)\<close>\<close>
  "next_start txt start = max (start + CHUNK_SIZE - CHUNK_OVERLAP) (window_end txt start)"

function chunk_loop ::
  "string \<Rightarrow> string \<Rightarrow> string \<Rightarrow> nat \<Rightarrow> nat \<Rightarrow> WikipediaChunk list" where
  "chunk_loop txt ttl u cid start =
     (if start < length txt \<and> cid < MAX_CHUNKS_PER_ARTICLE then
        (let e = window_end txt start;
             chunk_text = strip (slice txt start e)
         in if chunk_text \<noteq> [] then
              \<lparr>text_c = chunk_text, title = ttl, url = u, chunk_id = int cid,
               start_pos = int start, end_pos = int e\<rparr>
                # chunk_loop txt ttl u (cid + 1) (next_start txt start)
            else chunk_loop txt ttl u cid (next_start txt start))
      else [])"
  by pat_completeness auto
termination
  by (relation "measure (\<lambda>(txt, ttl, u, cid, start). length txt - start)")
     (auto simp: next_start_def CHUNK_SIZE_def CHUNK_OVERLAP_def)

definition chunk_text :: "string \<Rightarrow> string \<Rightarrow> string \<Rightarrow> WikipediaChunk list" where
  "chunk_text txt ttl u =
     (if length txt \<le> CHUNK_SIZE then
        [\<lparr>text_c = txt, title = ttl, url = u, chunk_id = 0,
          start_pos = 0, end_pos = int (length txt)\<rparr>]
      else chunk_loop txt ttl u 0 0)"

definition gap_text :: string where
  \<comment> \<open>A 10000-character article with a single period at offset 350.\<close>
  "gap_text = replicate 350 CHR ''a'' @ ''.'' @ replicate 9649 CHR ''a''"

section \<open>Wikipedia RAG: context formatting\<close>

definition digit_char :: "nat \<Rightarrow> char" where
  "digit_char n = char_of (48 + n)"

function str_nat :: "nat \<Rightarrow> string" where
  \<comment> \<open>The decimal rendering \<open>f"{i}"\<close> of a non-negative integer.\<close>
  "str_nat n = (if n < 10 then [digit_char n] else str_nat (n div 10) @ [digit_char (n mod 10)])"
  by pat_completeness auto
termination
  by (relation "measure id") auto

definition source_block :: "nat \<Rightarrow> WikipediaChunk \<Rightarrow> string" where
  \<comment> \<open>\<open>f"{source_info}\n{chunk.text}\n"\<close> with
      \<open>source_info = f"[Source {i}: {chunk.title}]"\<close>\<close>
  "source_block i c =
     ''[Source '' @ str_nat i @ '': '' @ title c @ '']'' @ [CHR 0x0A] @ text_c c @ [CHR 0x0A]"

fun format_loop :: "nat \<Rightarrow> nat \<Rightarrow> WikipediaChunk list \<Rightarrow> string list" where
  \<comment> \<open>The \<open>for i, chunk in enumerate(chunks, 1)\<close> loop: the accepted blocks, in order.\<close>
  "format_loop i total_length [] = []"
| "format_loop i total_length (c # cs) =
     (let chunk_content = source_block i c in
      if total_length + length chunk_content > MAX_CONTEXT_LENGTH then []
      else chunk_content # format_loop (i + 1) (total_length + length chunk_content) cs)"

fun join :: "string \<Rightarrow> string list \<Rightarrow> string" where
  \<comment> \<open>\<open>sep.join(parts)\<close>\<close>
  "join sep [] = []"
| "join sep [p] = p"
| "join sep (p # q # ps) = p @ sep @ join sep (q # ps)"

definition format_context :: "WikipediaChunk list \<Rightarrow> string" where
  "format_context chunks =
     (if chunks = [] then ''No relevant context available.''
      else join [CHR 0x0A] (format_loop 1 0 chunks))"

definition small_chunk :: WikipediaChunk where
  "small_chunk = \<lparr>text_c = ''x'', title = ''A'', url = [], chunk_id = 0,
                   start_pos = 0, end_pos = 1\<rparr>"

definition long_chunk :: "nat \<Rightarrow> WikipediaChunk" where
  "long_chunk n = \<lparr>text_c = replicate n CHR ''x'', title = ''A'', url = [], chunk_id = 0,
                    start_pos = 0, end_pos = int n\<rparr>"

definition overflow_chunks :: "WikipediaChunk list" where
  \<comment> \<open>Twenty chunks whose blocks have lengths 1685, 8 times 16 and 11 times 17: 2000 in all.\<close>
  "overflow_chunks =
     [long_chunk 1670, small_chunk, small_chunk, small_chunk, small_chunk,
      small_chunk, small_chunk, small_chunk, small_chunk, small_chunk,
      small_chunk, small_chunk, small_chunk, small_chunk, small_chunk,
      small_chunk, small_chunk, small_chunk, small_chunk, small_chunk]"

section \<open>Wikipedia RAG: vector store\<close>

text \<open>
  The store wraps a FAISS \<open>IndexFlatIP\<close>, which is a library and not code of this
  repository. It is modelled by what the wrapper relies on: the index keeps its dimension
  and the stored rows; \<open>add\<close> asserts that the rows have the index's dimension and appends
  them; \<open>search\<close> asserts the query's dimension and a positive \<open>k\<close> and returns the \<open>k\<close>
  best inner products in descending order with the positions of their rows. (The library
  pads with label \<open>-1\<close> when \<open>k\<close> exceeds the number of rows; the wrapper never asks for
  more than \<open>ntotal\<close>, so the padding is left out.) A two-dimensional array is a list of
  rows.
\<close>

type_synonym vec = "real list"

record IndexFlatIP =
  dim :: nat
  vectors :: "vec list"

definition ntotal :: "IndexFlatIP \<Rightarrow> nat" where
  "ntotal idx = length (vectors idx)"

definition normalize_L2 :: "vec \<Rightarrow> vec" where
  \<comment> \<open>\<open>faiss.normalize_L2\<close> on one row: a row of norm zero is left as it is.\<close>
  "normalize_L2 v =
     (let nr = sum_list (map (\<lambda>x. x * x) v) in
      if nr > 0 then map (\<lambda>x. x / sqrt nr) v else v)"

definition inner_product :: "vec \<Rightarrow> vec \<Rightarrow> real" where
  "inner_product a b = sum_list (map (\<lambda>(x, y). x * y) (zip a b))"

definition faiss_add :: "IndexFlatIP \<Rightarrow> vec list \<Rightarrow> error + IndexFlatIP" where
  "faiss_add idx x =
     (if list_all (\<lambda>v. length v = dim idx) x
      then Inr (idx\<lparr>vectors := vectors idx @ x\<rparr>)
      else Inl AssertionError)"

definition faiss_search :: "IndexFlatIP \<Rightarrow> vec \<Rightarrow> int \<Rightarrow> error + (real \<times> int) list" where
  "faiss_search idx q k =
     (if length q \<noteq> dim idx \<or> k \<le> 0 then Inl AssertionError
      else Inr (take (nat k)
                 (sort_key (\<lambda>(score, label). - score)
                    (zip (map (inner_product q) (vectors idx))
                         (map int [0 ..< length (vectors idx)])))))"

record VectorStore =
  embedding_dim :: nat
  index :: "IndexFlatIP option"
  metadata :: "WikipediaChunk list"

definition add_embeddings ::
  "vec list \<Rightarrow> WikipediaChunk list \<Rightarrow> VectorStore \<Rightarrow> (error + unit) \<times> VectorStore" where
  \<comment> \<open>The store is returned also when the call raises: the index created on first use
      stays.\<close>
  "add_embeddings embeddings chunks s =
     (let idx = (case index s of
                   None \<Rightarrow> \<lparr>dim = embedding_dim s, vectors = []\<rparr>
                 | Some i \<Rightarrow> i);
          s1 = s\<lparr>index := Some idx\<rparr>
      in case faiss_add idx (map normalize_L2 embeddings) of
           Inl e \<Rightarrow> (Inl e, s1)
         | Inr idx' \<Rightarrow> (Inr (), s1\<lparr>index := Some idx', metadata := metadata s1 @ chunks\<rparr>))"

definition py_index :: "'a list \<Rightarrow> int \<Rightarrow> 'a option" where
  \<comment> \<open>\<open>xs[i]\<close>: a negative index counts from the end; \<open>None\<close> stands for IndexError.\<close>
  "py_index xs i =
     (let n = int (length xs); j = (if i < 0 then n + i else i)
      in if 0 \<le> j \<and> j < n then Some (xs ! nat j) else None)"

fun collect_results ::
  "WikipediaChunk list \<Rightarrow> (real \<times> int) list \<Rightarrow> error + (WikipediaChunk \<times> real) list" where
  \<comment> \<open>The \<open>for score, idx in zip(scores[0], indices[0])\<close> loop of \<open>search\<close>.\<close>
  "collect_results md [] = Inr []"
| "collect_results md ((score, idx) # rest) =
     (if idx \<noteq> - 1 then
        (case py_index md idx of
           None \<Rightarrow> Inl IndexError
         | Some chunk \<Rightarrow>
             (case collect_results md rest of
                Inl e \<Rightarrow> Inl e
              | Inr results \<Rightarrow> Inr ((chunk, score) # results)))
      else collect_results md rest)"

definition search ::
  "VectorStore \<Rightarrow> vec \<Rightarrow> int \<Rightarrow> error + (WikipediaChunk \<times> real) list" where
  "search s query_embedding k =
     (case index s of
        None \<Rightarrow> Inr []
      | Some idx \<Rightarrow>
          if ntotal idx = 0 then Inr []
          else (case faiss_search idx (normalize_L2 query_embedding) (min k (int (ntotal idx))) of
                  Inl e \<Rightarrow> Inl e
                | Inr hits \<Rightarrow> collect_results (metadata s) hits))"

definition new_VectorStore :: "nat \<Rightarrow> VectorStore" where
  \<comment> \<open>\<open>VectorStore(embedding_dim)\<close> when no index file exists.\<close>
  "new_VectorStore n = \<lparr>embedding_dim = n, index = Some \<lparr>dim = n, vectors = []\<rparr>, metadata = []\<rparr>"

definition demo_store :: VectorStore where
  \<comment> \<open>A store of dimension 2 holding two unit vectors and their chunks.\<close>
  "demo_store = \<lparr>embedding_dim = 2,
                  index = Some \<lparr>dim = 2, vectors = [[1, 0], [0, 1]]\<rparr>,
                  metadata = [small_chunk, long_chunk 5]\<rparr>"

definition lopsided_store :: VectorStore where
  \<comment> \<open>The store that adding two vectors with a single chunk leaves behind.\<close>
  "lopsided_store = snd (add_embeddings [[1, 0], [0, 1]] [small_chunk] (new_VectorStore 2))"

section \<open>Wikipedia RAG: fetching and cleaning\<close>

text \<open>
  The collaborators outside the repository are parameters: the embedding model, the
  \<open>wikipedia\<close> package and the writing of the index files. Each returns its value or the
  exception it raises.
\<close>

record Env =
  embed_query :: "string \<Rightarrow> error + vec"
  embed_passages :: "string list \<Rightarrow> error + vec list"
  wikipedia_search :: "string \<Rightarrow> nat \<Rightarrow> error + string list"
  wikipedia_page :: "string \<Rightarrow> error + (string \<times> string)"
  write_index :: "VectorStore \<Rightarrow> error + unit"

definition search_wikipedia :: "Env \<Rightarrow> string \<Rightarrow> nat \<Rightarrow> error + string list" where
  \<comment> \<open>Only \<open>wikipedia.exceptions.WikipediaException\<close> is caught.\<close>
  "search_wikipedia env query max_results =
     (case wikipedia_search env query max_results of
        Inr search_results \<Rightarrow> Inr search_results
      | Inl (WikipediaException w) \<Rightarrow> Inr []
      | Inl e \<Rightarrow> Inl e)"

definition get_page_content :: "Env \<Rightarrow> string \<Rightarrow> (string \<times> string) option" where
  "get_page_content env ttl =
     (case wikipedia_page env ttl of
        Inr page \<Rightarrow> Some page
      | Inl (WikipediaException (DisambiguationError options)) \<Rightarrow>
          (case options of
             [] \<Rightarrow> None
           | opt # _ \<Rightarrow>
               (case wikipedia_page env opt of
                  Inr page \<Rightarrow> Some page
                | Inl _ \<Rightarrow> None))
      | Inl _ \<Rightarrow> None)"

function remove_citations :: "string \<Rightarrow> string" where
  \<comment> \<open>\<open>re.sub(r'\[\d+\]', '', text)\<close>\<close>
  "remove_citations [] = []"
| "remove_citations (c # cs) =
     (if c = CHR ''['' \<and> takeWhile is_digit cs \<noteq> []
         \<and> dropWhile is_digit cs \<noteq> [] \<and> hd (dropWhile is_digit cs) = CHR '']''
      then remove_citations (tl (dropWhile is_digit cs))
      else c # remove_citations cs)"
  by pat_completeness auto
termination
proof (relation "measure length")
  fix c :: char and cs :: string
  have "length (tl (dropWhile is_digit cs)) \<le> length (dropWhile is_digit cs)" by simp
  also have "\<dots> \<le> length cs" by (rule length_dropWhile_le)
  finally show "(tl (dropWhile is_digit cs), c # cs) \<in> measure length" by simp
qed simp_all

function collapse_whitespace :: "string \<Rightarrow> string" where
  \<comment> \<open>\<open>re.sub(r'\s+', ' ', text)\<close>\<close>
  "collapse_whitespace [] = []"
| "collapse_whitespace (c # cs) =
     (if is_space c then CHR '' '' # collapse_whitespace (dropWhile is_space cs)
      else c # collapse_whitespace cs)"
  by pat_completeness auto
termination
proof (relation "measure length")
  fix c :: char and cs :: string
  have "length (dropWhile is_space cs) \<le> length cs" by (rule length_dropWhile_le)
  then show "(dropWhile is_space cs, c # cs) \<in> measure length" by simp
qed simp_all

definition clean_text :: "string \<Rightarrow> string" where
  "clean_text t = strip (collapse_whitespace (remove_citations t))"

fun process_pages :: "Env \<Rightarrow> string list \<Rightarrow> WikipediaChunk list" where
  \<comment> \<open>The \<open>for title in page_titles\<close> loop of \<open>retrieve_and_chunk\<close>.\<close>
  "process_pages env [] = []"
| "process_pages env (ttl # rest) =
     (case get_page_content env ttl of
        None \<Rightarrow> process_pages env rest
      | Some (content, u) \<Rightarrow> chunk_text (clean_text content) ttl u @ process_pages env rest)"

definition retrieve_and_chunk :: "Env \<Rightarrow> string \<Rightarrow> error + WikipediaChunk list" where
  "retrieve_and_chunk env query =
     (case search_wikipedia env query WIKIPEDIA_SEARCH_RESULTS of
        Inl e \<Rightarrow> Inl e
      | Inr page_titles \<Rightarrow>
          if page_titles = [] then Inr [] else Inr (process_pages env page_titles))"

definition save_index :: "Env \<Rightarrow> VectorStore \<Rightarrow> error + unit" where
  "save_index env s = (case index s of None \<Rightarrow> Inr () | Some _ \<Rightarrow> write_index env s)"

section \<open>Wikipedia RAG: retrieval policy\<close>

datatype event = LowSimilarity | Indexed nat | NoNewContent

fun py_max :: "real list \<Rightarrow> real" where
  \<comment> \<open>\<open>max(scores)\<close>; the caller tests \<open>scores\<close> for emptiness first.\<close>
  "py_max (x # xs) = fold max xs x"

definition auto_index_threshold :: real where
  "auto_index_threshold = 8 / 10"

definition needs_auto_index :: "WikipediaChunk list \<Rightarrow> real list \<Rightarrow> bool" where
  \<comment> \<open>\<open>not chunks or (scores and max(scores) < auto_index_threshold)\<close>\<close>
  "needs_auto_index chunks scores =
     (chunks = [] \<or> (scores \<noteq> [] \<and> py_max scores < auto_index_threshold))"

definition filter_by_threshold ::
  "WikipediaChunk list \<Rightarrow> real list \<Rightarrow> WikipediaChunk list \<times> real list" where
  "filter_by_threshold chunks scores =
     (if chunks \<noteq> [] \<and> scores \<noteq> [] then
        (let filtered_results =
               filter (\<lambda>(chunk, score). score \<ge> MIN_SIMILARITY_THRESHOLD) (zip chunks scores)
         in if filtered_results \<noteq> [] then (map fst filtered_results, map snd filtered_results)
            else ([], []))
      else (chunks, scores))"

definition index_new_content ::
  "Env \<Rightarrow> vec \<Rightarrow> WikipediaChunk list \<Rightarrow> WikipediaChunk list \<Rightarrow> real list \<Rightarrow> VectorStore
     \<Rightarrow> (error + WikipediaChunk list \<times> real list) \<times> VectorStore \<times> event list" where
  \<comment> \<open>The branch \<open>if new_chunks:\<close> of \<open>retrieve_context\<close>, followed by the final filter.
      The events are the function's own progress messages.\<close>
  "index_new_content env query_embedding new_chunks chunks scores s =
     (case embed_passages env (map text_c new_chunks) of
        Inl e \<Rightarrow> (Inl e, s, [LowSimilarity])
      | Inr embeddings \<Rightarrow>
          (case add_embeddings embeddings new_chunks s of
             (Inl e, s1) \<Rightarrow> (Inl e, s1, [LowSimilarity])
           | (Inr _, s1) \<Rightarrow>
               (case save_index env s1 of
                  Inl e \<Rightarrow> (Inl e, s1, [LowSimilarity])
                | Inr _ \<Rightarrow>
                    (case search s1 query_embedding TOP_K_RETRIEVAL of
                       Inl e \<Rightarrow> (Inl e, s1, [LowSimilarity, Indexed (length new_chunks)])
                     | Inr results \<Rightarrow>
                         (if results \<noteq> []
                          then (Inr (filter_by_threshold (map fst results) (map snd results)),
                                s1, [LowSimilarity, Indexed (length new_chunks)])
                          else (Inr (filter_by_threshold chunks scores),
                                s1, [LowSimilarity, Indexed (length new_chunks)]))))))"

definition retrieve_context ::
  "Env \<Rightarrow> string \<Rightarrow> VectorStore
     \<Rightarrow> (error + WikipediaChunk list \<times> real list) \<times> VectorStore \<times> event list" where
  "retrieve_context env query s =
     (case embed_query env query of
        Inl e \<Rightarrow> (Inl e, s, [])
      | Inr query_embedding \<Rightarrow>
          (case search s query_embedding TOP_K_RETRIEVAL of
             Inl e \<Rightarrow> (Inl e, s, [])
           | Inr results \<Rightarrow>
               (let chunks = map fst results; scores = map snd results in
                if needs_auto_index chunks scores then
                  (case retrieve_and_chunk env query of
                     Inl e \<Rightarrow> (Inl e, s, [LowSimilarity])
                   | Inr new_chunks \<Rightarrow>
                       if new_chunks \<noteq> []
                       then index_new_content env query_embedding new_chunks chunks scores s
                       else (Inr (filter_by_threshold chunks scores), s,
                             [LowSimilarity, NoNewContent]))
                else (Inr (filter_by_threshold chunks scores), s, []))))"

definition demo_env :: Env where
  \<comment> \<open>Collaborators for the examples: the query embeds to a unit vector, Wikipedia
      knows one short page, the passage embedding service is down, writing succeeds.\<close>
  "demo_env =
     \<lparr>embed_query = (\<lambda>q. Inr [1, 0]),
      embed_passages = (\<lambda>ps. Inl (OtherException ''embedding service down'')),
      wikipedia_search = (\<lambda>q n. Inr [''Python'']),
      wikipedia_page = (\<lambda>t. Inr (''Python is a language.'', ''https://en.wikipedia.org/wiki/Python'')),
      write_index = (\<lambda>s. Inr ())\<rparr>"

definition python_chunk :: WikipediaChunk where
  \<comment> \<open>The single chunk of the page that \<open>demo_env\<close> serves.\<close>
  "python_chunk = \<lparr>text_c = ''Python is a language.'', title = ''Python'',
                    url = ''https://en.wikipedia.org/wiki/Python'', chunk_id = 0,
                    start_pos = 0, end_pos = 21\<rparr>"

definition indexing_env :: Env where
  \<comment> \<open>As \<open>demo_env\<close>, with a passage embedding service that answers.\<close>
  "indexing_env = demo_env\<lparr>embed_passages := \<lambda>ps. Inr [[1, 0]]\<rparr>"

definition full_disk_env :: Env where
  \<comment> \<open>As \<open>indexing_env\<close>, with a disk that refuses the index files.\<close>
  "full_disk_env = indexing_env\<lparr>write_index := \<lambda>s. Inl (OtherException ''disk full'')\<rparr>"

definition indexed_store :: VectorStore where
  \<comment> \<open>The store of dimension 2 holding the page's chunk under the vector (1, 0).\<close>
  "indexed_store = \<lparr>embedding_dim = 2,
                     index = Some \<lparr>dim = 2, vectors = [[1, 0]]\<rparr>,
                     metadata = [python_chunk]\<rparr>"

section \<open>Discord bot: conversation memory\<close>

datatype MessageRole = SYSTEM | USER | ASSISTANT

record ChatMessage =
  role :: MessageRole
  content :: string
  name :: "string option"

text \<open>The database row, with the columns \<open>prepare_context\<close> reads.\<close>

record Message =
  msg_role :: string
  msg_content :: string
  is_deleted :: bool

record ConversationConfig =
  max_history :: int
  context_window_tokens :: int

text \<open>
  The tokenizer is a library: \<open>encoder\<close> is \<open>None\<close> when it could not be loaded, and the
  encoder's own result is \<open>None\<close> when encoding raises.
\<close>

record MemoryManager =
  config :: ConversationConfig
  encoder :: "(string \<Rightarrow> nat option) option"

definition new_ChatMessage :: "MessageRole \<Rightarrow> string \<Rightarrow> error + ChatMessage" where
  \<comment> \<open>\<open>ChatMessage(role=..., content=...)\<close>: the field bounds \<open>min_length=1\<close> and
      \<open>max_length=32000\<close>, then the validator, which rejects blank content and strips it.\<close>
  "new_ChatMessage r c =
     (if length c < 1 \<or> 32000 < length c then Inl ValidationError
      else if strip c = [] then Inl ValidationError
      else Inr \<lparr>role = r, content = strip c, name = None\<rparr>)"

definition parse_role :: "string \<Rightarrow> error + MessageRole" where
  \<comment> \<open>\<open>MessageRole(msg.role)\<close>\<close>
  "parse_role r =
     (if r = ''system'' then Inr SYSTEM
      else if r = ''user'' then Inr USER
      else if r = ''assistant'' then Inr ASSISTANT
      else Inl ValueError)"

definition count_tokens :: "MemoryManager \<Rightarrow> string \<Rightarrow> int" where
  "count_tokens mm t =
     (case encoder mm of
        Some encode \<Rightarrow>
          (case encode t of
             Some n \<Rightarrow> int n
           | None \<Rightarrow> max 1 (int (length t) div 4))
      | None \<Rightarrow> max 1 (int (length t) div 4))"

definition count_message_tokens :: "MemoryManager \<Rightarrow> ChatMessage \<Rightarrow> int" where
  "count_message_tokens mm message =
     (let content_tokens = count_tokens mm (content message);
          overhead_tokens = 4 + (case name message of
                                   None \<Rightarrow> 0
                                 | Some n \<Rightarrow> if n \<noteq> [] then count_tokens mm n else 0)
      in content_tokens + overhead_tokens)"

definition count_messages_tokens :: "MemoryManager \<Rightarrow> ChatMessage list \<Rightarrow> int" where
  "count_messages_tokens mm messages = sum_list (map (count_message_tokens mm) messages) + 10"

fun select_recent ::
  "MemoryManager \<Rightarrow> int \<Rightarrow> ChatMessage list \<Rightarrow> int \<Rightarrow> ChatMessage list \<Rightarrow> ChatMessage list" where
  \<comment> \<open>The \<open>for message in reversed(messages)\<close> loop; the third argument is the reversed
      list still to visit.\<close>
  "select_recent mm available_tokens [] used_tokens result_messages = result_messages"
| "select_recent mm available_tokens (message # older) used_tokens result_messages =
     (let message_tokens = count_message_tokens mm message in
      if used_tokens + message_tokens \<le> available_tokens
      then select_recent mm available_tokens older (used_tokens + message_tokens)
             (message # result_messages)
      else result_messages)"

definition slice_from :: "'a list \<Rightarrow> int \<Rightarrow> 'a list" where
  \<comment> \<open>\<open>xs[i:]\<close>\<close>
  "slice_from xs i = (if i < 0 then drop (nat (int (length xs) + i)) xs else drop (nat i) xs)"

definition apply_truncation_strategy ::
  "MemoryManager \<Rightarrow> ChatMessage list \<Rightarrow> int \<Rightarrow> ChatMessage list" where
  "apply_truncation_strategy mm messages available_tokens =
     (if messages = [] then []
      else (let result_messages = select_recent mm available_tokens (rev messages) 0 [] in
            if int (length result_messages) > max_history (config mm)
            then slice_from result_messages (- max_history (config mm))
            else result_messages))"

fun convert_messages :: "Message list \<Rightarrow> error + ChatMessage list" where
  \<comment> \<open>The \<open>for msg in messages\<close> loop of \<open>prepare_context\<close>.\<close>
  "convert_messages [] = Inr []"
| "convert_messages (msg # rest) =
     (if is_deleted msg then convert_messages rest
      else (case parse_role (msg_role msg) of
              Inl e \<Rightarrow> Inl e
            | Inr r \<Rightarrow>
                (case new_ChatMessage r (msg_content msg) of
                   Inl e \<Rightarrow> Inl e
                 | Inr chat_msg \<Rightarrow>
                     (case convert_messages rest of
                        Inl e \<Rightarrow> Inl e
                      | Inr all_messages \<Rightarrow> Inr (chat_msg # all_messages)))))"

definition system_messages :: "string option \<Rightarrow> error + ChatMessage list" where
  \<comment> \<open>\<open>chat_messages\<close> after the \<open>if system_prompt:\<close> block.\<close>
  "system_messages system_prompt =
     (case system_prompt of
        None \<Rightarrow> Inr []
      | Some p \<Rightarrow>
          if p = [] then Inr []
          else (case new_ChatMessage SYSTEM p of
                  Inl e \<Rightarrow> Inl e
                | Inr system_message \<Rightarrow> Inr [system_message]))"

definition prepare_context ::
  "MemoryManager \<Rightarrow> Message list \<Rightarrow> string option \<Rightarrow> error + ChatMessage list \<times> int" where
  "prepare_context mm messages system_prompt =
     (case system_messages system_prompt of
        Inl e \<Rightarrow> Inl e
      | Inr chat_messages \<Rightarrow>
          (case convert_messages messages of
             Inl e \<Rightarrow> Inl e
           | Inr all_messages \<Rightarrow>
               (let context_messages =
                      apply_truncation_strategy mm all_messages
                        (context_window_tokens (config mm)
                           - (case chat_messages of
                                [] \<Rightarrow> 0
                              | m # _ \<Rightarrow> count_message_tokens mm m));
                    chat_messages' = chat_messages @ context_messages
                in Inr (chat_messages', count_messages_tokens mm chat_messages'))))"

definition tight_manager :: MemoryManager where
  \<comment> \<open>A manager with a window of 20 tokens and no tokenizer (the fallback estimate).\<close>
  "tight_manager = \<lparr>config = \<lparr>max_history = 20, context_window_tokens = 20\<rparr>, encoder = None\<rparr>"

definition overflow_history :: "Message list" where
  \<comment> \<open>Two stored messages, oldest first: 4 characters, then 64 characters.\<close>
  "overflow_history =
     [\<lparr>msg_role = ''user'', msg_content = ''aaaa'', is_deleted = False\<rparr>,
      \<lparr>msg_role = ''assistant'', msg_content = replicate 64 CHR ''b'', is_deleted = False\<rparr>]"

section \<open>Chunking: properties\<close>

declare chunk_loop.simps [simp del]
declare str_nat.simps [simp del]

text \<open>
  C6. A text no longer than \<open>CHUNK_SIZE\<close> comes back as exactly one chunk: its text is
  the unmodified input, its sequence id is 0, it starts at 0 and ends at \<open>len(text)\<close>.
\<close>

theorem chunk_text_short:
  assumes "length txt \<le> CHUNK_SIZE"
  shows "\<exists>c. chunk_text txt ttl u = [c] \<and> text_c c = txt \<and> chunk_id c = 0
             \<and> start_pos c = 0 \<and> end_pos c = int (length txt)"
  using assms by (simp add: chunk_text_def)

theorem chunk_text_short_witness:
  "length ''Python is a language.'' \<le> CHUNK_SIZE \<and>
   (\<exists>c. chunk_text ''Python is a language.'' ''Python'' ''https://en.wikipedia.org/wiki/Python'' = [c]
        \<and> text_c c = ''Python is a language.'' \<and> chunk_id c = 0
        \<and> start_pos c = 0 \<and> end_pos c = int (length ''Python is a language.''))"
proof -
  have h: "length ''Python is a language.'' \<le> CHUNK_SIZE"
    by (simp add: CHUNK_SIZE_def)
  show ?thesis
    using h chunk_text_short [OF h, of "''Python''" "''https://en.wikipedia.org/wiki/Python''"]
    by blast
qed

lemma rfind_cases:
  "rfind c s lo hi = - 1 \<or> (int lo \<le> rfind c s lo hi \<and> rfind c s lo hi < int (min hi (length s)))"
proof (cases "filter (\<lambda>i. s ! i = c) (rev [lo ..< min hi (length s)])")
  case Nil
  then show ?thesis by (simp add: rfind_def)
next
  case (Cons i rest)
  then have "i \<in> set (filter (\<lambda>i. s ! i = c) (rev [lo ..< min hi (length s)]))"
    by simp
  then have "lo \<le> i \<and> i < min hi (length s)" by auto
  with Cons show ?thesis by (simp add: rfind_def)
qed

lemma window_end_le_length: "start \<le> length txt \<Longrightarrow> window_end txt start \<le> length txt"
  using rfind_cases [of "CHR ''.''" "txt" start "min (start + CHUNK_SIZE) (length txt) + CHUNK_OVERLAP"]
  by (auto simp: window_end_def Let_def)

lemma window_end_upper: "window_end txt start \<le> start + CHUNK_SIZE + CHUNK_OVERLAP"
  using rfind_cases [of "CHR ''.''" "txt" start "min (start + CHUNK_SIZE) (length txt) + CHUNK_OVERLAP"]
  by (auto simp: window_end_def Let_def)

lemma window_end_lower: "start < length txt \<Longrightarrow> start < window_end txt start"
  by (auto simp: window_end_def Let_def CHUNK_SIZE_def)

lemma window_end_short: "window_end txt start < length txt \<Longrightarrow> start + CHUNK_SIZE < length txt"
  by (auto simp: window_end_def Let_def split: if_splits)

lemma length_strip: "length (strip s) \<le> length s"
proof -
  have "length (strip s) \<le> length (dropWhile is_space s)"
    unfolding strip_def using length_dropWhile_le [of is_space "rev (dropWhile is_space s)"] by simp
  then show ?thesis using length_dropWhile_le [of is_space s] by linarith
qed

lemma strip_eq_Nil: "strip s = [] \<longleftrightarrow> (\<forall>c \<in> set s. is_space c)"
proof
  assume a: "strip s = []"
  have "dropWhile is_space s = []"
  proof (rule ccontr)
    assume ne: "dropWhile is_space s \<noteq> []"
    then have "\<not> is_space (hd (dropWhile is_space s))" by (rule hd_dropWhile)
    moreover have "hd (dropWhile is_space s) \<in> set (dropWhile is_space s)" using ne by simp
    moreover from a have "\<forall>x \<in> set (dropWhile is_space s). is_space x"
      by (auto simp: strip_def dropWhile_eq_Nil_conv dest: set_dropWhileD)
    ultimately show False by blast
  qed
  then show "\<forall>c \<in> set s. is_space c" by (simp add: dropWhile_eq_Nil_conv)
next
  assume "\<forall>c \<in> set s. is_space c"
  then have d: "dropWhile is_space s = []" by (simp add: dropWhile_eq_Nil_conv)
  show "strip s = []" unfolding strip_def d by simp
qed

lemma chunk_loop_stop:
  "\<not> (start < length t \<and> cid < MAX_CHUNKS_PER_ARTICLE) \<Longrightarrow> chunk_loop t ttl u cid start = []"
  by (subst chunk_loop.simps) auto

lemma chunk_loop_keep:
  "start < length t \<Longrightarrow> cid < MAX_CHUNKS_PER_ARTICLE \<Longrightarrow>
   strip (slice t start (window_end t start)) \<noteq> [] \<Longrightarrow>
   chunk_loop t ttl u cid start =
     \<lparr>text_c = strip (slice t start (window_end t start)), title = ttl, url = u,
      chunk_id = int cid, start_pos = int start, end_pos = int (window_end t start)\<rparr>
       # chunk_loop t ttl u (cid + 1) (next_start t start)"
  by (subst chunk_loop.simps) (simp add: Let_def)

lemma chunk_loop_skip:
  "start < length t \<Longrightarrow> cid < MAX_CHUNKS_PER_ARTICLE \<Longrightarrow>
   strip (slice t start (window_end t start)) = [] \<Longrightarrow>
   chunk_loop t ttl u cid start = chunk_loop t ttl u cid (next_start t start)"
  by (subst chunk_loop.simps) (simp add: Let_def)

lemma chunk_loop_text_bound:
  "c \<in> set (chunk_loop t ttl u cid start) \<Longrightarrow>
     length (text_c c) \<le> CHUNK_SIZE + CHUNK_OVERLAP
     \<and> end_pos c - start_pos c \<le> int (CHUNK_SIZE + CHUNK_OVERLAP)"
proof (induction t ttl u cid start rule: chunk_loop.induct)
  case (1 t ttl u cid start)
  have len: "length (strip (slice t start (window_end t start))) \<le> CHUNK_SIZE + CHUNK_OVERLAP"
  proof -
    have "length (slice t start (window_end t start)) \<le> window_end t start - start"
      by (simp add: slice_def)
    also have "\<dots> \<le> CHUNK_SIZE + CHUNK_OVERLAP"
      using window_end_upper [of t start] by simp
    finally show ?thesis
      using length_strip [of "slice t start (window_end t start)"] by linarith
  qed
  have span: "int (window_end t start) - int start \<le> int (CHUNK_SIZE + CHUNK_OVERLAP)"
    using window_end_upper [of t start] by linarith
  from "1.prems" show ?case
    using "1.IH" len span
    by (subst (asm) chunk_loop.simps) (auto simp: Let_def split: if_splits)
qed


lemma next_start_gt: "start < next_start t start"
  by (simp add: next_start_def CHUNK_SIZE_def CHUNK_OVERLAP_def max_def)

lemma chunk_loop_span:
  "c \<in> set (chunk_loop t ttl u cid start) \<Longrightarrow>
     int start \<le> start_pos c \<and> start_pos c < end_pos c \<and> end_pos c \<le> int (length t)"
proof (induction t ttl u cid start rule: chunk_loop.induct)
  case (1 t ttl u cid start)
  show ?case
  proof (cases "start < length t \<and> cid < MAX_CHUNKS_PER_ARTICLE")
    case False
    with "1.prems" show ?thesis by (subst (asm) chunk_loop.simps) simp
  next
    case True
    then have lo: "start < window_end t start" and hi: "window_end t start \<le> length t"
      using window_end_lower [of start t] window_end_le_length [of start t] by simp_all
    have nx: "start < next_start t start" by (rule next_start_gt)
    from "1.prems" True show ?thesis
      using "1.IH" lo hi nx
      by (subst (asm) chunk_loop.simps) (fastforce simp: Let_def split: if_splits)
  qed
qed

lemma chunk_loop_sorted:
  "sorted_wrt (\<lambda>a b. start_pos a < start_pos b) (chunk_loop t ttl u cid start)"
proof (induction t ttl u cid start rule: chunk_loop.induct)
  case (1 t ttl u cid start)
  have nx: "start < next_start t start" by (rule next_start_gt)
  have tl: "\<And>k c. c \<in> set (chunk_loop t ttl u k (next_start t start)) \<Longrightarrow> int start < start_pos c"
    using chunk_loop_span nx by fastforce
  show ?case
    using "1.IH" tl
    by (subst chunk_loop.simps) (auto simp: Let_def)
qed

lemma chunk_loop_ids:
  "map chunk_id (chunk_loop t ttl u cid start)
     = map int [cid ..< cid + length (chunk_loop t ttl u cid start)]"
proof (induction t ttl u cid start rule: chunk_loop.induct)
  case (1 t ttl u cid start)
  show ?case
  proof (cases "start < length t \<and> cid < MAX_CHUNKS_PER_ARTICLE")
    case False
    then show ?thesis by (simp add: chunk_loop_stop)
  next
    case True
    show ?thesis
    proof (cases "strip (slice t start (window_end t start)) \<noteq> []")
      case ne: True
      have eq: "chunk_loop t ttl u cid start =
          \<lparr>text_c = strip (slice t start (window_end t start)), title = ttl, url = u,
           chunk_id = int cid, start_pos = int start, end_pos = int (window_end t start)\<rparr>
            # chunk_loop t ttl u (cid + 1) (next_start t start)"
        using True ne by (subst chunk_loop.simps) (simp add: Let_def)
      have ih: "map chunk_id (chunk_loop t ttl u (cid + 1) (next_start t start))
          = map int [cid + 1 ..< cid + 1 + length (chunk_loop t ttl u (cid + 1) (next_start t start))]"
        using "1.IH"(1) [OF True refl refl ne] .
      have up: "\<And>n. [cid ..< cid + Suc n] = cid # [cid + 1 ..< cid + 1 + n]"
        by (subst upt_rec) simp
      show ?thesis
        unfolding eq using ih by (simp add: upt_conv_Cons del: upt_Suc)
    next
      case emp: False
      have eq: "chunk_loop t ttl u cid start = chunk_loop t ttl u cid (next_start t start)"
        using True emp by (subst chunk_loop.simps) (simp add: Let_def)
      show ?thesis
        unfolding eq using "1.IH"(2) [OF True refl refl emp] .
    qed
  qed
qed

lemma chunk_loop_length:
  "cid + length (chunk_loop t ttl u cid start) \<le> max cid MAX_CHUNKS_PER_ARTICLE"
proof (induction t ttl u cid start rule: chunk_loop.induct)
  case (1 t ttl u cid start)
  show ?case
    using "1.IH"
    by (subst chunk_loop.simps) (auto simp: Let_def max_def split: if_splits)
qed


lemma strip_to_end_nonempty:
  assumes "start < length t" and "\<not> is_space (last t)"
  shows "strip (slice t start (length t)) \<noteq> []"
proof -
  have ne: "drop start t \<noteq> []" using assms(1) by simp
  then have "last (drop start t) = last t" using assms(1) by (simp add: last_drop)
  moreover have "last (drop start t) \<in> set (drop start t)" using ne by (rule last_in_set)
  ultimately have "\<exists>c \<in> set (slice t start (length t)). \<not> is_space c"
    using assms(2) by (auto simp: slice_def)
  then show ?thesis by (simp add: strip_eq_Nil)
qed

lemma chunk_loop_last_end:
  "start < length t \<Longrightarrow> cid + length (chunk_loop t ttl u cid start) < MAX_CHUNKS_PER_ARTICLE \<Longrightarrow>
   \<not> is_space (last t) \<Longrightarrow>
   chunk_loop t ttl u cid start \<noteq> [] \<and>
   end_pos (last (chunk_loop t ttl u cid start)) = int (length t)"
proof (induction t ttl u cid start rule: chunk_loop.induct)
  case (1 t ttl u cid start)
  let ?e = "window_end t start"
  let ?n = "next_start t start"
  let ?c = "\<lparr>text_c = strip (slice t start ?e), title = ttl, url = u,
      chunk_id = int cid, start_pos = int start, end_pos = int ?e\<rparr>"
  have lt: "start < length t" by fact
  have cid: "cid < MAX_CHUNKS_PER_ARTICLE" using "1.prems"(2) by simp
  have cond: "start < length t \<and> cid < MAX_CHUNKS_PER_ARTICLE" using lt cid by simp
  show ?case
  proof (cases "?n < length t")
    case True
    show ?thesis
    proof (cases "strip (slice t start ?e) \<noteq> []")
      case ne: True
      have eq: "chunk_loop t ttl u cid start = ?c # chunk_loop t ttl u (cid + 1) ?n"
        using lt cid ne by (rule chunk_loop_keep)
      have "cid + 1 + length (chunk_loop t ttl u (cid + 1) ?n) < MAX_CHUNKS_PER_ARTICLE"
        using "1.prems"(2) unfolding eq by simp
      from "1.IH"(1) [OF cond refl refl ne True this "1.prems"(3)]
      show ?thesis unfolding eq by simp
    next
      case emp: False
      then have emp': "strip (slice t start ?e) = []" by simp
      have eq: "chunk_loop t ttl u cid start = chunk_loop t ttl u cid ?n"
        using lt cid emp' by (rule chunk_loop_skip)
      have "cid + length (chunk_loop t ttl u cid ?n) < MAX_CHUNKS_PER_ARTICLE"
        using "1.prems"(2) unfolding eq .
      from "1.IH"(2) [OF cond refl refl emp True this "1.prems"(3)]
      show ?thesis unfolding eq .
    qed
  next
    case False
    have e_le: "?e \<le> length t" using window_end_le_length [of start t] lt by simp
    have e_eq: "?e = length t"
    proof (rule ccontr)
      assume "?e \<noteq> length t"
      then have "?e < length t" using e_le by simp
      moreover from this have "start + CHUNK_SIZE < length t" by (rule window_end_short)
      ultimately have "?n < length t"
        by (simp add: next_start_def CHUNK_SIZE_def CHUNK_OVERLAP_def)
      with False show False by simp
    qed
    have ne: "strip (slice t start ?e) \<noteq> []"
      unfolding e_eq using lt "1.prems"(3) by (rule strip_to_end_nonempty)
    have eq: "chunk_loop t ttl u cid start = ?c # chunk_loop t ttl u (cid + 1) ?n"
      using lt cid ne by (rule chunk_loop_keep)
    have rest: "chunk_loop t ttl u (cid + 1) ?n = []"
      using False by (simp add: chunk_loop_stop)
    show ?thesis unfolding eq rest using e_eq by simp
  qed
qed



lemma rfind_none:
  "(\<And>j. lo \<le> j \<Longrightarrow> j < length s \<Longrightarrow> s ! j \<noteq> c) \<Longrightarrow> rfind c s lo hi = - 1"
proof -
  assume a: "\<And>j. lo \<le> j \<Longrightarrow> j < length s \<Longrightarrow> s ! j \<noteq> c"
  have "filter (\<lambda>i. s ! i = c) (rev [lo ..< min hi (length s)]) = []"
    using a by (auto simp: filter_empty_conv)
  then show ?thesis by (simp add: rfind_def)
qed

lemma rfind_found:
  assumes "lo \<le> i" and "i < hi" and "i < length s" and "s ! i = c"
    and "\<And>j. i < j \<Longrightarrow> j < length s \<Longrightarrow> s ! j \<noteq> c"
  shows "rfind c s lo hi = int i"
proof -
  let ?m = "min hi (length s)"
  have im: "i < ?m" using assms(2,3) by simp
  have "[lo ..< ?m] = [lo ..< i] @ [i ..< ?m]"
    using upt_add_eq_append [of lo i "?m - i"] assms(1) im by simp
  moreover have "[i ..< ?m] = i # [Suc i ..< ?m]"
    using im by (simp add: upt_conv_Cons)
  ultimately have split: "[lo ..< ?m] = [lo ..< i] @ i # [Suc i ..< ?m]" by simp
  have "filter (\<lambda>i. s ! i = c) (rev [Suc i ..< ?m]) = []"
    using assms(5) by (auto simp: filter_empty_conv)
  then have "filter (\<lambda>i. s ! i = c) (rev [lo ..< ?m])
      = i # filter (\<lambda>i. s ! i = c) (rev [lo ..< i])"
    unfolding split using assms(4) by simp
  then show ?thesis by (simp add: rfind_def)
qed

lemma window_end_no_period:
  "(\<And>j. start \<le> j \<Longrightarrow> j < length t \<Longrightarrow> t ! j \<noteq> CHR ''.'') \<Longrightarrow>
   window_end t start = min (start + CHUNK_SIZE) (length t)"
  by (simp add: window_end_def Let_def rfind_none)

lemma strip_slice_nonempty:
  assumes "start < e" and "start < length t" and "\<not> is_space (t ! start)"
  shows "strip (slice t start e) \<noteq> []"
proof -
  have "slice t start e \<noteq> []" using assms(1,2) by (simp add: slice_def)
  moreover have "hd (slice t start e) = t ! start"
    using assms(1,2) by (simp add: slice_def hd_drop_conv_nth)
  ultimately have "t ! start \<in> set (slice t start e)" by (metis hd_in_set)
  then show ?thesis using assms(3) by (auto simp: strip_eq_Nil)
qed

lemma length_gap_text: "length gap_text = 10000"
  by (simp add: gap_text_def)

lemma gap_text_nth_period: "gap_text ! 350 = CHR ''.''"
  by (simp add: gap_text_def nth_append)

lemma gap_text_nth_other: "j \<noteq> 350 \<Longrightarrow> j < 10000 \<Longrightarrow> gap_text ! j = CHR ''a''"
  by (auto simp: gap_text_def nth_append nth_Cons')

lemma not_space_a: "\<not> is_space CHR ''a''"
  by (simp add: is_space_def)

lemma window_end_gap_0: "window_end gap_text 0 = 351"
proof -
  have "rfind CHR ''.'' gap_text 0 700 = 350"
    using rfind_found [of 0 350 700 gap_text "CHR ''.''"]
    by (simp add: length_gap_text gap_text_nth_period gap_text_nth_other)
  then show ?thesis
    by (simp add: window_end_def Let_def length_gap_text CHUNK_SIZE_def CHUNK_OVERLAP_def)
qed

lemma window_end_gap_later:
  "351 \<le> start \<Longrightarrow> window_end gap_text start = min (start + 600) 10000"
  using window_end_no_period [of start gap_text]
  by (simp add: length_gap_text gap_text_nth_other CHUNK_SIZE_def)

lemma chunk_loop_gap_0:
  "chunk_loop gap_text ttl u 0 0 =
     \<lparr>text_c = strip (slice gap_text 0 351), title = ttl, url = u,
      chunk_id = 0, start_pos = 0, end_pos = 351\<rparr> # chunk_loop gap_text ttl u 1 500"
proof -
  have "strip (slice gap_text 0 (window_end gap_text 0)) \<noteq> []"
    by (rule strip_slice_nonempty)
       (simp_all add: window_end_gap_0 length_gap_text gap_text_nth_other not_space_a)
  then show ?thesis
    using chunk_loop_keep [of 0 gap_text 0 ttl u]
    by (simp add: length_gap_text MAX_CHUNKS_PER_ARTICLE_def window_end_gap_0 next_start_def
        CHUNK_SIZE_def CHUNK_OVERLAP_def)
qed

lemma chunk_loop_gap_step:
  assumes "351 \<le> start" and "start + 600 < 10000" and "cid < 15"
  shows "chunk_loop gap_text ttl u cid start =
     \<lparr>text_c = strip (slice gap_text start (start + 600)), title = ttl, url = u,
      chunk_id = int cid, start_pos = int start, end_pos = int (start + 600)\<rparr>
       # chunk_loop gap_text ttl u (cid + 1) (start + 600)"
proof -
  have we: "window_end gap_text start = start + 600"
    using assms by (simp add: window_end_gap_later)
  have "strip (slice gap_text start (window_end gap_text start)) \<noteq> []"
    by (rule strip_slice_nonempty)
       (use assms in \<open>simp_all add: we length_gap_text gap_text_nth_other not_space_a\<close>)
  then show ?thesis
    using chunk_loop_keep [of start gap_text cid ttl u] assms
    by (simp add: length_gap_text MAX_CHUNKS_PER_ARTICLE_def we next_start_def
        CHUNK_SIZE_def CHUNK_OVERLAP_def)
qed

lemma chunk_text_gap_positions:
  "map (\<lambda>c. (start_pos c, end_pos c)) (chunk_text gap_text ttl u) =
     [(0, 351), (500, 1100), (1100, 1700), (1700, 2300), (2300, 2900), (2900, 3500),
      (3500, 4100), (4100, 4700), (4700, 5300), (5300, 5900), (5900, 6500), (6500, 7100),
      (7100, 7700), (7700, 8300), (8300, 8900)]"
  by (simp add: chunk_text_def length_gap_text CHUNK_SIZE_def chunk_loop_gap_0
      chunk_loop_gap_step chunk_loop_stop MAX_CHUNKS_PER_ARTICLE_def)


lemma chunk_text_gap_nonempty: "chunk_text gap_text ttl u \<noteq> []"
  using arg_cong [OF chunk_text_gap_positions [of ttl u], of length] by auto

text \<open>
  C9. Every chunk of a text longer than \<open>CHUNK_SIZE\<close> has a text of at most
  \<open>CHUNK_SIZE + CHUNK_OVERLAP\<close> characters, and its span from start to end offset is
  at most that long: the sentence-boundary extension moves the end at most
  \<open>CHUNK_OVERLAP\<close> characters past the fixed window.
\<close>

theorem chunk_text_length_bound:
  assumes "CHUNK_SIZE < length t"
  shows "\<forall>c \<in> set (chunk_text t ttl u).
           length (text_c c) \<le> CHUNK_SIZE + CHUNK_OVERLAP
           \<and> end_pos c - start_pos c \<le> int (CHUNK_SIZE + CHUNK_OVERLAP)"
  using assms chunk_loop_text_bound by (auto simp: chunk_text_def)

theorem chunk_text_length_bound_witness:
  "CHUNK_SIZE < length gap_text
   \<and> chunk_text gap_text ''T'' ''U'' \<noteq> []
   \<and> length (text_c (hd (chunk_text gap_text ''T'' ''U''))) \<le> CHUNK_SIZE + CHUNK_OVERLAP
   \<and> end_pos (hd (chunk_text gap_text ''T'' ''U'')) - start_pos (hd (chunk_text gap_text ''T'' ''U''))
        \<le> int (CHUNK_SIZE + CHUNK_OVERLAP)"
proof -
  have h: "CHUNK_SIZE < length gap_text" by (simp add: length_gap_text CHUNK_SIZE_def)
  have ne: "chunk_text gap_text ''T'' ''U'' \<noteq> []" by (rule chunk_text_gap_nonempty)
  then have "hd (chunk_text gap_text ''T'' ''U'') \<in> set (chunk_text gap_text ''T'' ''U'')"
    by (rule hd_in_set)
  then show ?thesis using h ne chunk_text_length_bound [OF h, of "''T''" "''U''"] by blast
qed

lemma chunk_text_plain_700:
  "chunk_text (replicate 700 CHR ''a'') ttl u =
     [\<lparr>text_c = strip (slice (replicate 700 CHR ''a'') 0 600), title = ttl, url = u,
       chunk_id = 0, start_pos = 0, end_pos = 600\<rparr>,
      \<lparr>text_c = strip (slice (replicate 700 CHR ''a'') 600 700), title = ttl, url = u,
       chunk_id = 1, start_pos = 600, end_pos = 700\<rparr>]"
proof -
  let ?t = "replicate 700 CHR ''a''"
  have we: "\<And>start. window_end ?t start = min (start + 600) 700"
    using window_end_no_period [of _ ?t] by (simp add: CHUNK_SIZE_def)
  have ne0: "strip (slice ?t 0 (window_end ?t 0)) \<noteq> []"
    by (rule strip_slice_nonempty) (simp_all add: we not_space_a)
  have ne1: "strip (slice ?t 600 (window_end ?t 600)) \<noteq> []"
    by (rule strip_slice_nonempty) (simp_all add: we not_space_a)
  have s0: "chunk_loop ?t ttl u 0 0 =
      \<lparr>text_c = strip (slice ?t 0 600), title = ttl, url = u,
       chunk_id = 0, start_pos = 0, end_pos = 600\<rparr> # chunk_loop ?t ttl u (Suc 0) 600"
    using chunk_loop_keep [of 0 ?t 0 ttl u] ne0
    by (simp add: we MAX_CHUNKS_PER_ARTICLE_def next_start_def CHUNK_SIZE_def CHUNK_OVERLAP_def)
  have s1: "chunk_loop ?t ttl u (Suc 0) 600 =
      \<lparr>text_c = strip (slice ?t 600 700), title = ttl, url = u,
       chunk_id = 1, start_pos = 600, end_pos = 700\<rparr> # chunk_loop ?t ttl u (Suc (Suc 0)) 1100"
    using chunk_loop_keep [of 600 ?t "Suc 0" ttl u] ne1
    by (simp add: we MAX_CHUNKS_PER_ARTICLE_def next_start_def CHUNK_SIZE_def CHUNK_OVERLAP_def)
  have s2: "chunk_loop ?t ttl u (Suc (Suc 0)) 1100 = []"
    by (simp add: chunk_loop_stop)
  show ?thesis by (simp add: chunk_text_def CHUNK_SIZE_def s0 s1 s2)
qed

text \<open>
  C5 (amended). For a text longer than \<open>CHUNK_SIZE\<close> the chunks come in strictly
  increasing start offset with sequence ids 0, 1, 2, ...; there are at most
  \<open>MAX_CHUNKS_PER_ARTICLE\<close> of them; every span is non-empty and lies inside the text;
  and when fewer than \<open>MAX_CHUNKS_PER_ARTICLE\<close> chunks were produced and the text does not
  end in whitespace, the list is non-empty and its last chunk ends at \<open>len(text)\<close>.
\<close>

theorem chunk_text_order_and_end:
  assumes "CHUNK_SIZE < length t"
  shows "sorted_wrt (\<lambda>a b. start_pos a < start_pos b) (chunk_text t ttl u)
    \<and> map chunk_id (chunk_text t ttl u) = map int [0 ..< length (chunk_text t ttl u)]
    \<and> length (chunk_text t ttl u) \<le> MAX_CHUNKS_PER_ARTICLE
    \<and> (\<forall>c \<in> set (chunk_text t ttl u).
          0 \<le> start_pos c \<and> start_pos c < end_pos c \<and> end_pos c \<le> int (length t))
    \<and> (length (chunk_text t ttl u) < MAX_CHUNKS_PER_ARTICLE \<and> \<not> is_space (last t) \<longrightarrow>
          chunk_text t ttl u \<noteq> []
          \<and> end_pos (last (chunk_text t ttl u)) = int (length t))"
proof -
  have eq: "chunk_text t ttl u = chunk_loop t ttl u 0 0"
    using assms by (simp add: chunk_text_def)
  have pos: "0 < length t" using assms by (auto simp: CHUNK_SIZE_def)
  have a: "sorted_wrt (\<lambda>a b. start_pos a < start_pos b) (chunk_loop t ttl u 0 0)"
    by (rule chunk_loop_sorted)
  have b: "map chunk_id (chunk_loop t ttl u 0 0) = map int [0 ..< length (chunk_loop t ttl u 0 0)]"
    using chunk_loop_ids [of t ttl u 0 0] by simp
  have c: "length (chunk_loop t ttl u 0 0) \<le> MAX_CHUNKS_PER_ARTICLE"
    using chunk_loop_length [of 0 t ttl u 0] by simp
  have d: "\<forall>c \<in> set (chunk_loop t ttl u 0 0).
          0 \<le> start_pos c \<and> start_pos c < end_pos c \<and> end_pos c \<le> int (length t)"
    using chunk_loop_span [of _ t ttl u 0 0] by auto
  have e: "length (chunk_loop t ttl u 0 0) < MAX_CHUNKS_PER_ARTICLE \<and> \<not> is_space (last t) \<longrightarrow>
          chunk_loop t ttl u 0 0 \<noteq> []
          \<and> end_pos (last (chunk_loop t ttl u 0 0)) = int (length t)"
    using chunk_loop_last_end [of 0 t 0 ttl u] pos by simp
  show ?thesis unfolding eq using a b c d e by blast
qed

theorem chunk_text_order_and_end_witness:
  "CHUNK_SIZE < length (replicate 700 CHR ''a'')
   \<and> length (chunk_text (replicate 700 CHR ''a'') ''T'' ''U'') = 2
   \<and> length (chunk_text (replicate 700 CHR ''a'') ''T'' ''U'') < MAX_CHUNKS_PER_ARTICLE
   \<and> \<not> is_space (last (replicate 700 CHR ''a''))
   \<and> sorted_wrt (\<lambda>a b. start_pos a < start_pos b) (chunk_text (replicate 700 CHR ''a'') ''T'' ''U'')
   \<and> end_pos (last (chunk_text (replicate 700 CHR ''a'') ''T'' ''U''))
       = int (length (replicate 700 CHR ''a''))"
proof -
  have h: "CHUNK_SIZE < length (replicate 700 CHR ''a'')" by (simp add: CHUNK_SIZE_def)
  have n: "length (chunk_text (replicate 700 CHR ''a'') ''T'' ''U'') = 2"
    by (simp add: chunk_text_plain_700)
  have m: "length (chunk_text (replicate 700 CHR ''a'') ''T'' ''U'') < MAX_CHUNKS_PER_ARTICLE"
    using n by (simp add: MAX_CHUNKS_PER_ARTICLE_def)
  have sp: "\<not> is_space (last (replicate 700 CHR ''a''))" by (simp add: not_space_a)
  show ?thesis
    using h n m sp chunk_text_order_and_end [OF h, of "''T''" "''U''"] by blast
qed

text \<open>
  Counterexample to C5 as stated: on \<open>gap_text\<close> the first chunk ends at the period, offset 351,
  the second starts at 500, so the two are neither contiguous nor overlapping; and the cap
  of 15 chunks ends the list at offset 8900 of 10000.
\<close>

theorem chunk_text_coverage_counterexample:
  "CHUNK_SIZE < length gap_text
   \<and> \<not> start_pos (chunk_text gap_text ''T'' ''U'' ! 1) \<le> end_pos (chunk_text gap_text ''T'' ''U'' ! 0)
   \<and> end_pos (last (chunk_text gap_text ''T'' ''U'')) \<noteq> int (length gap_text)"
proof -
  have pos: "map (\<lambda>c. (start_pos c, end_pos c)) (chunk_text gap_text ''T'' ''U'') =
     [(0, 351), (500, 1100), (1100, 1700), (1700, 2300), (2300, 2900), (2900, 3500),
      (3500, 4100), (4100, 4700), (4700, 5300), (5300, 5900), (5900, 6500), (6500, 7100),
      (7100, 7700), (7700, 8300), (8300, 8900)]"
    by (rule chunk_text_gap_positions)
  have len: "length (chunk_text gap_text ''T'' ''U'') = 15"
    using arg_cong [OF pos, of length] by simp
  have n0: "(start_pos (chunk_text gap_text ''T'' ''U'' ! 0), end_pos (chunk_text gap_text ''T'' ''U'' ! 0)) = (0, 351)"
    using arg_cong [OF pos, of "\<lambda>l. l ! 0"] len by simp
  have n1: "(start_pos (chunk_text gap_text ''T'' ''U'' ! 1), end_pos (chunk_text gap_text ''T'' ''U'' ! 1)) = (500, 1100)"
    using arg_cong [OF pos, of "\<lambda>l. l ! 1"] len by simp
  have ne: "chunk_text gap_text ''T'' ''U'' \<noteq> []" using len by auto
  have "last (map (\<lambda>c. (start_pos c, end_pos c)) (chunk_text gap_text ''T'' ''U'')) = (8300, 8900)"
    unfolding pos by simp
  then have l: "end_pos (last (chunk_text gap_text ''T'' ''U'')) = 8900"
    using ne by (simp add: last_map)
  show ?thesis using n0 n1 l by (simp add: length_gap_text CHUNK_SIZE_def)
qed

section \<open>Context formatting: properties\<close>

lemma length_join:
  "length (join sep ps) = sum_list (map length ps) + length sep * (length ps - 1)"
  by (induction sep ps rule: join.induct) simp_all

lemma length_str_nat_1: "n < 10 \<Longrightarrow> length (str_nat n) = 1"
  by (subst str_nat.simps) simp

lemma length_str_nat_2: "10 \<le> n \<Longrightarrow> n < 100 \<Longrightarrow> length (str_nat n) = 2"
  by (subst str_nat.simps) (simp add: length_str_nat_1)

lemma length_source_block:
  "length (source_block i c) = 13 + length (str_nat i) + length (title c) + length (text_c c)"
  by (simp add: source_block_def)

lemma hd_source_block: "hd (source_block i c) = CHR ''[''"
  by (simp add: source_block_def)

lemma source_block_nonempty: "source_block i c \<noteq> []"
  by (simp add: source_block_def)

lemma format_loop_prefix:
  "tot \<le> MAX_CONTEXT_LENGTH \<Longrightarrow>
   \<exists>n \<le> length cs.
     format_loop i tot cs = map (\<lambda>(j, c). source_block j c) (zip [i ..< i + n] (take n cs))
     \<and> tot + sum_list (map length (format_loop i tot cs)) \<le> MAX_CONTEXT_LENGTH
     \<and> (n < length cs \<longrightarrow>
          MAX_CONTEXT_LENGTH < tot + sum_list (map length (format_loop i tot cs))
                                 + length (source_block (i + n) (cs ! n)))"
proof (induction cs arbitrary: i tot)
  case Nil
  then show ?case by simp
next
  case (Cons c cs)
  show ?case
  proof (cases "tot + length (source_block i c) > MAX_CONTEXT_LENGTH")
    case True
    then have "format_loop i tot (c # cs) = []" by simp
    then show ?thesis using True Cons.prems by (intro exI [of _ 0]) simp
  next
    case False
    then have le: "tot + length (source_block i c) \<le> MAX_CONTEXT_LENGTH" by simp
    have eq: "format_loop i tot (c # cs) =
        source_block i c # format_loop (i + 1) (tot + length (source_block i c)) cs"
      using False by (simp add: Let_def)
    from Cons.IH [OF le, of "i + 1"] obtain n where n: "n \<le> length cs"
      and f: "format_loop (i + 1) (tot + length (source_block i c)) cs
          = map (\<lambda>(j, c). source_block j c) (zip [i + 1 ..< i + 1 + n] (take n cs))"
      and s: "tot + length (source_block i c)
          + sum_list (map length (format_loop (i + 1) (tot + length (source_block i c)) cs))
          \<le> MAX_CONTEXT_LENGTH"
      and o: "n < length cs \<longrightarrow>
          MAX_CONTEXT_LENGTH < tot + length (source_block i c)
            + sum_list (map length (format_loop (i + 1) (tot + length (source_block i c)) cs))
            + length (source_block (i + 1 + n) (cs ! n))"
      by blast
    have up: "[i ..< i + Suc n] = i # [i + 1 ..< i + 1 + n]"
      by (subst upt_rec) simp
    show ?thesis
    proof (intro exI [of _ "Suc n"] conjI)
      show "Suc n \<le> length (c # cs)" using n by simp
      show "format_loop i tot (c # cs) =
          map (\<lambda>(j, c). source_block j c) (zip [i ..< i + Suc n] (take (Suc n) (c # cs)))"
        unfolding eq f up by simp
      show "tot + sum_list (map length (format_loop i tot (c # cs))) \<le> MAX_CONTEXT_LENGTH"
        unfolding eq using s by simp
      show "Suc n < length (c # cs) \<longrightarrow>
          MAX_CONTEXT_LENGTH < tot + sum_list (map length (format_loop i tot (c # cs)))
            + length (source_block (i + Suc n) ((c # cs) ! Suc n))"
        unfolding eq using o by (simp add: add.assoc)
    qed
  qed
qed


lemma map_length_blocks:
  "map length (map (\<lambda>(j, c). source_block j c) zs)
     = map (\<lambda>(j, c). length (source_block j c)) zs"
  by (induction zs) auto

text \<open>
  What \<open>format_context\<close> computes: on the empty list the fixed sentinel; on a non-empty
  list the blocks \<open>"[Source i: {title}]\n{text}\n"\<close> of a prefix of the list, numbered
  from 1 and joined by one newline. The prefix stops at the first chunk whose block would
  take the sum of the block lengths over \<open>MAX_CONTEXT_LENGTH\<close>, without skipping ahead;
  the block lengths sum to at most \<open>MAX_CONTEXT_LENGTH\<close>, and the output is that sum plus
  one separator for every block after the first.
\<close>

lemma format_context_prefix:
  "format_context [] = ''No relevant context available.''
   \<and> (chunks \<noteq> [] \<longrightarrow>
        (\<exists>n \<le> length chunks.
           format_context chunks
             = join [CHR 0x0A]
                 (map (\<lambda>(j, c). source_block j c) (zip [1 ..< 1 + n] (take n chunks)))
           \<and> sum_list (map (\<lambda>(j, c). length (source_block j c)) (zip [1 ..< 1 + n] (take n chunks)))
               \<le> MAX_CONTEXT_LENGTH
           \<and> (n < length chunks \<longrightarrow>
                MAX_CONTEXT_LENGTH
                  < sum_list (map (\<lambda>(j, c). length (source_block j c))
                               (zip [1 ..< 1 + n] (take n chunks)))
                    + length (source_block (1 + n) (chunks ! n)))
           \<and> length (format_context chunks)
               = sum_list (map (\<lambda>(j, c). length (source_block j c))
                            (zip [1 ..< 1 + n] (take n chunks)))
                 + (n - 1)))"
proof (intro conjI impI)
  show "format_context [] = ''No relevant context available.''"
    by (simp add: format_context_def)
next
  assume ne: "chunks \<noteq> []"
  have "0 \<le> MAX_CONTEXT_LENGTH" by simp
  from format_loop_prefix [OF this, of chunks 1] obtain n where n: "n \<le> length chunks"
    and f: "format_loop 1 0 chunks
        = map (\<lambda>(j, c). source_block j c) (zip [1 ..< 1 + n] (take n chunks))"
    and s: "0 + sum_list (map length (format_loop 1 0 chunks)) \<le> MAX_CONTEXT_LENGTH"
    and o: "n < length chunks \<longrightarrow>
        MAX_CONTEXT_LENGTH < 0 + sum_list (map length (format_loop 1 0 chunks))
          + length (source_block (1 + n) (chunks ! n))"
    by blast
  have sm: "sum_list (map length (format_loop 1 0 chunks))
      = sum_list (map (\<lambda>(j, c). length (source_block j c)) (zip [1 ..< 1 + n] (take n chunks)))"
    unfolding f by (rule arg_cong [where f = sum_list]) (rule map_length_blocks)
  have ln: "length (format_loop 1 0 chunks) = n"
    unfolding f using n by simp
  have fc: "format_context chunks = join [CHR 0x0A] (format_loop 1 0 chunks)"
    using ne by (simp add: format_context_def)
  show "\<exists>n \<le> length chunks.
           format_context chunks
             = join [CHR 0x0A]
                 (map (\<lambda>(j, c). source_block j c) (zip [1 ..< 1 + n] (take n chunks)))
           \<and> sum_list (map (\<lambda>(j, c). length (source_block j c)) (zip [1 ..< 1 + n] (take n chunks)))
               \<le> MAX_CONTEXT_LENGTH
           \<and> (n < length chunks \<longrightarrow>
                MAX_CONTEXT_LENGTH
                  < sum_list (map (\<lambda>(j, c). length (source_block j c))
                               (zip [1 ..< 1 + n] (take n chunks)))
                    + length (source_block (1 + n) (chunks ! n)))
           \<and> length (format_context chunks)
               = sum_list (map (\<lambda>(j, c). length (source_block j c))
                            (zip [1 ..< 1 + n] (take n chunks)))
                 + (n - 1)"
  proof (intro exI [of _ n] conjI)
    show "n \<le> length chunks" by (rule n)
    show "format_context chunks
             = join [CHR 0x0A]
                 (map (\<lambda>(j, c). source_block j c) (zip [1 ..< 1 + n] (take n chunks)))"
      unfolding fc f ..
    show "sum_list (map (\<lambda>(j, c). length (source_block j c)) (zip [1 ..< 1 + n] (take n chunks)))
               \<le> MAX_CONTEXT_LENGTH"
      using s sm by simp
    show "n < length chunks \<longrightarrow>
                MAX_CONTEXT_LENGTH
                  < sum_list (map (\<lambda>(j, c). length (source_block j c))
                               (zip [1 ..< 1 + n] (take n chunks)))
                    + length (source_block (1 + n) (chunks ! n))"
      using o sm by simp
    show "length (format_context chunks)
               = sum_list (map (\<lambda>(j, c). length (source_block j c))
                            (zip [1 ..< 1 + n] (take n chunks)))
                 + (n - 1)"
      unfolding fc length_join ln sm by simp
  qed
qed


lemma upt_1_21:
  "[1 ..< 21] = [1, 2, 3, 4, 5, 6, 7, 8, 9, 10, 11, 12, 13, 14, 15, 16, 17, 18, 19, 20 :: nat]"
  by code_simp

lemma format_loop_all_fit:
  "tot + sum_list (map (\<lambda>(j, c). length (source_block j c)) (zip [i ..< i + length cs] cs))
     \<le> MAX_CONTEXT_LENGTH \<Longrightarrow>
   format_loop i tot cs = map (\<lambda>(j, c). source_block j c) (zip [i ..< i + length cs] cs)"
proof (induction cs arbitrary: i tot)
  case Nil
  then show ?case by simp
next
  case (Cons c cs)
  have up: "[i ..< i + length (c # cs)] = i # [i + 1 ..< i + 1 + length cs]"
    by (subst upt_rec) simp
  from Cons.prems have le: "tot + length (source_block i c)
      + sum_list (map (\<lambda>(j, c). length (source_block j c)) (zip [i + 1 ..< i + 1 + length cs] cs))
      \<le> MAX_CONTEXT_LENGTH"
    unfolding up by (simp add: add.assoc)
  then have fit: "\<not> tot + length (source_block i c) > MAX_CONTEXT_LENGTH" by simp
  have "format_loop (i + 1) (tot + length (source_block i c)) cs
      = map (\<lambda>(j, c). source_block j c) (zip [i + 1 ..< i + 1 + length cs] cs)"
    using le by (rule Cons.IH)
  then show ?case unfolding up using fit by (simp add: Let_def)
qed

text \<open>
  C8. The output of \<open>format_context\<close> should never be longer than
  \<open>MAX_CONTEXT_LENGTH\<close> plus the formatting overhead of the last included chunk. The code
  breaks this: its length check counts the blocks and not the newlines that join them. All
  twenty blocks of \<open>overflow_chunks\<close> are accepted, their lengths sum to 2000, and the
  nineteen separators take the output to 2019 characters, more than \<open>MAX_CONTEXT_LENGTH\<close>
  plus the 16 characters of formatting around the last chunk's text.
\<close>

theorem format_context_separator_overrun:
  "overflow_chunks \<noteq> []
   \<and> length (format_loop 1 0 overflow_chunks) = 20
   \<and> length (format_context overflow_chunks) = 2019
   \<and> \<not> length (format_context overflow_chunks)
         \<le> MAX_CONTEXT_LENGTH
             + (length (source_block 20 (overflow_chunks ! 19))
                - length (text_c (overflow_chunks ! 19)))"
proof -
  have sm0: "sum_list (map (\<lambda>(j, c). length (source_block j c)) (zip [1 ..< 21] overflow_chunks))
      = 2000"
    unfolding upt_1_21
    by (simp add: overflow_chunks_def length_source_block length_str_nat_1
        length_str_nat_2 small_chunk_def long_chunk_def)
  have l20: "length overflow_chunks = 20" by (simp add: overflow_chunks_def)
  have fl: "format_loop 1 0 overflow_chunks =
      map (\<lambda>(j, c). source_block j c) (zip [1 ..< 21] overflow_chunks)"
    using format_loop_all_fit [of 0 1 overflow_chunks] sm0
    by (simp add: l20 MAX_CONTEXT_LENGTH_def)
  have n: "length (format_loop 1 0 overflow_chunks) = 20"
    unfolding fl by (simp add: l20)
  have sm: "sum_list (map length (format_loop 1 0 overflow_chunks)) = 2000"
    unfolding fl map_length_blocks by (rule sm0)
  have ne: "overflow_chunks \<noteq> []" by (simp add: overflow_chunks_def)
  have len: "length (format_context overflow_chunks) = 2019"
    using ne n sm by (simp add: format_context_def length_join)
  have oh: "length (source_block 20 (overflow_chunks ! 19))
                - length (text_c (overflow_chunks ! 19)) = 16"
    by (simp add: overflow_chunks_def length_source_block length_str_nat_2 small_chunk_def)
  show ?thesis
    unfolding len oh using n ne by (simp add: MAX_CONTEXT_LENGTH_def)
qed

lemma hd_join: "p \<noteq> [] \<Longrightarrow> hd (join sep (p # ps)) = hd p"
  by (cases ps) simp_all

lemma format_context_first_too_long:
  assumes "chunks \<noteq> []" and "MAX_CONTEXT_LENGTH < length (source_block 1 (hd chunks))"
  shows "format_context chunks = []"
proof -
  from assms(1) obtain c cs where "chunks = c # cs" by (cases chunks) auto
  then show ?thesis using assms(2) by (simp add: format_context_def)
qed

lemma format_context_sentinel_iff:
  "format_context chunks = ''No relevant context available.'' \<longleftrightarrow> chunks = []"
proof
  assume a: "format_context chunks = ''No relevant context available.''"
  show "chunks = []"
  proof (rule ccontr)
    assume ne: "chunks \<noteq> []"
    then obtain c cs where ch: "chunks = c # cs" by (cases chunks) auto
    show False
    proof (cases "format_loop 1 0 chunks")
      case Nil
      then have "format_context chunks = []" using ne by (simp add: format_context_def)
      with a show False by simp
    next
      case (Cons b bs)
      then have "b = source_block 1 c"
        unfolding ch by (simp add: Let_def split: if_splits)
      then have "hd (format_context chunks) = CHR ''[''"
        using ne Cons by (simp add: format_context_def hd_join source_block_nonempty hd_source_block)
      with a show False by simp
    qed
  qed
next
  assume "chunks = []"
  then show "format_context chunks = ''No relevant context available.''"
    by (simp add: format_context_def)
qed

lemma long_block_too_long: "MAX_CONTEXT_LENGTH < length (source_block 1 (long_chunk 2000))"
  by (simp add: length_source_block length_str_nat_1 long_chunk_def MAX_CONTEXT_LENGTH_def)

text \<open>
  C10. Some non-empty chunk list makes \<open>format_context\<close> return the empty string: any
  list whose first block alone is longer than \<open>MAX_CONTEXT_LENGTH\<close> does. The sentinel is
  returned for the empty list only.
\<close>

theorem format_context_empty_string:
  "(\<exists>cs. cs \<noteq> [] \<and> format_context cs = [])
   \<and> (chunks \<noteq> [] \<and> MAX_CONTEXT_LENGTH < length (source_block 1 (hd chunks))
        \<longrightarrow> format_context chunks = [])
   \<and> (format_context chunks = ''No relevant context available.'' \<longleftrightarrow> chunks = [])"
proof (intro conjI)
  have "format_context [long_chunk 2000] = []"
    using long_block_too_long by (intro format_context_first_too_long) simp_all
  then show "\<exists>cs. cs \<noteq> [] \<and> format_context cs = []" by blast
  show "chunks \<noteq> [] \<and> MAX_CONTEXT_LENGTH < length (source_block 1 (hd chunks))
        \<longrightarrow> format_context chunks = []"
    using format_context_first_too_long by blast
  show "format_context chunks = ''No relevant context available.'' \<longleftrightarrow> chunks = []"
    by (rule format_context_sentinel_iff)
qed

theorem format_context_empty_string_witness:
  "[long_chunk 2000] \<noteq> []
   \<and> MAX_CONTEXT_LENGTH < length (source_block 1 (hd [long_chunk 2000]))
   \<and> format_context [long_chunk 2000] = []
   \<and> format_context [long_chunk 2000] \<noteq> ''No relevant context available.''"
proof -
  have h1: "[long_chunk 2000] \<noteq> []" by simp
  have h2: "MAX_CONTEXT_LENGTH < length (source_block 1 (hd [long_chunk 2000]))"
    using long_block_too_long by simp
  show ?thesis
    using h1 h2 format_context_empty_string [of "[long_chunk 2000]"] by simp
qed

section \<open>Vector store: properties\<close>

lemma add_embeddings_dimension_mismatch:
  assumes "\<exists>v \<in> set embeddings. length v \<noteq> embedding_dim s"
    and "index s = None \<or> (\<exists>idx. index s = Some idx \<and> dim idx = embedding_dim s)"
  shows "fst (add_embeddings embeddings chunks s) = Inl AssertionError
    \<and> metadata (snd (add_embeddings embeddings chunks s)) = metadata s
    \<and> (case index (snd (add_embeddings embeddings chunks s)) of
          None \<Rightarrow> False
        | Some idx' \<Rightarrow> vectors idx' = (case index s of None \<Rightarrow> [] | Some idx \<Rightarrow> vectors idx))"
proof -
  have len: "\<And>v. length (normalize_L2 v) = length v"
    by (simp add: normalize_L2_def Let_def)
  from assms(1) obtain v where v: "v \<in> set embeddings" "length v \<noteq> embedding_dim s" by blast
  then have "\<not> list_all (\<lambda>v. length v = embedding_dim s) (map normalize_L2 embeddings)"
    by (auto simp: list_all_iff len)
  then show ?thesis
    using assms(2) by (auto simp: add_embeddings_def faiss_add_def Let_def)
qed

lemma normalize_unit_x: "normalize_L2 [1, 0] = [1, 0]"
  by (simp add: normalize_L2_def)

lemma normalize_unit_y: "normalize_L2 [0, 1] = [0, 1]"
  by (simp add: normalize_L2_def)

text \<open>
  C2. The claim holds for a wrong dimension but not for a wrong count: two vectors added
  with a single chunk are accepted, and the store ends with two vectors and one chunk.
\<close>

theorem add_embeddings_count_mismatch:
  "add_embeddings [[1, 0], [0, 1]] [small_chunk] (new_VectorStore 2)
     = (Inr (), \<lparr>embedding_dim = 2,
                 index = Some \<lparr>dim = 2, vectors = [[1, 0], [0, 1]]\<rparr>,
                 metadata = [small_chunk]\<rparr>)"
  by (simp add: add_embeddings_def new_VectorStore_def faiss_add_def Let_def
      normalize_unit_x normalize_unit_y)


lemma collect_results_scores:
  "collect_results md hits = Inr results \<Longrightarrow>
     map snd results = map fst (filter (\<lambda>(score, label). label \<noteq> - 1) hits)"
proof (induction hits arbitrary: results)
  case Nil
  then show ?case by simp
next
  case (Cons h hits)
  obtain score label where h: "h = (score, label)" by (cases h)
  show ?case
  proof (cases "label = - 1")
    case True
    with Cons h show ?thesis by simp
  next
    case False
    with Cons.prems h obtain chunk rest where
      "py_index md label = Some chunk" "collect_results md hits = Inr rest"
      "results = (chunk, score) # rest"
      by (auto split: option.splits sum.splits)
    with Cons.IH [of rest] False h show ?thesis by simp
  qed
qed

lemma collect_results_valid:
  "\<forall>h \<in> set hits. 0 \<le> snd h \<and> snd h < int (length md) \<Longrightarrow>
   \<exists>results. collect_results md hits = Inr results \<and> length results = length hits"
proof (induction hits)
  case Nil
  then show ?case by simp
next
  case (Cons h hits)
  obtain score label where h: "h = (score, label)" by (cases h)
  have "0 \<le> label \<and> label < int (length md)" using Cons.prems h by simp
  then have ok: "label \<noteq> - 1" "py_index md label = Some (md ! nat label)"
    by (auto simp: py_index_def Let_def)
  from Cons obtain rest where "collect_results md hits = Inr rest" "length rest = length hits"
    by auto
  then show ?case using ok h by simp
qed

lemma faiss_hits_sorted:
  "sorted_wrt (\<lambda>a b. fst a \<ge> fst b)
     (take n (sort_key (\<lambda>(score, label). - score) (zs :: (real \<times> int) list)))"
proof -
  have "sorted (map (\<lambda>(score, label). - score) (sort_key (\<lambda>(score, label). - score) zs))"
    by (rule sorted_sort_key)
  then have "sorted_wrt (\<lambda>a b. fst a \<ge> fst b) (sort_key (\<lambda>(score, label). - score) zs)"
    by (simp add: sorted_wrt_map case_prod_beta)
  then show ?thesis by (rule sorted_wrt_take)
qed

lemma search_sorted:
  assumes "search s q k = Inr results"
  shows "sorted_wrt (\<ge>) (map snd results)"
proof (cases "index s")
  case None
  with assms show ?thesis by (simp add: search_def)
next
  case (Some idx)
  show ?thesis
  proof (cases "ntotal idx = 0")
    case True
    with assms Some show ?thesis by (simp add: search_def)
  next
    case False
    with assms Some obtain hits where
      fs: "faiss_search idx (normalize_L2 q) (min k (int (ntotal idx))) = Inr hits"
      and cr: "collect_results (metadata s) hits = Inr results"
      by (auto simp: search_def split: sum.splits)
    from fs have "sorted_wrt (\<lambda>a b. fst a \<ge> fst b) hits"
      using faiss_hits_sorted by (auto simp: faiss_search_def split: if_splits)
    then have "sorted_wrt (\<lambda>a b. fst a \<ge> fst b) (filter (\<lambda>(score, label). label \<noteq> - 1) hits)"
      by (rule sorted_wrt_filter)
    then have "sorted_wrt (\<ge>) (map fst (filter (\<lambda>(score, label). label \<noteq> - 1) hits))"
      by (simp add: sorted_wrt_map)
    then show ?thesis using collect_results_scores [OF cr] by simp
  qed
qed

text \<open>
  C7 (amended). On an empty store \<open>search\<close> returns the empty list for every query and
  every \<open>k\<close>, and never raises. On a non-empty store that keeps one chunk per stored
  vector, for a query of the index's dimension and \<open>k \<ge> 1\<close>, it returns exactly
  \<open>min(k, ntotal)\<close> pairs in descending order of score.
\<close>

theorem search_count_and_order:
  "(index s = None \<or> (\<exists>idx. index s = Some idx \<and> ntotal idx = 0) \<longrightarrow> search s q k = Inr [])
   \<and> (index s = Some idx \<and> 0 < ntotal idx \<and> length (metadata s) = ntotal idx
        \<and> length q = dim idx \<and> 0 < k \<longrightarrow>
        (\<exists>results. search s q k = Inr results
           \<and> int (length results) = min k (int (ntotal idx))
           \<and> sorted_wrt (\<ge>) (map snd results)))"
proof (intro conjI impI)
  assume "index s = None \<or> (\<exists>idx. index s = Some idx \<and> ntotal idx = 0)"
  then show "search s q k = Inr []" by (auto simp: search_def)
next
  assume a: "index s = Some idx \<and> 0 < ntotal idx \<and> length (metadata s) = ntotal idx
        \<and> length q = dim idx \<and> 0 < k"
  let ?k = "min k (int (ntotal idx))"
  let ?all = "sort_key (\<lambda>(score, label). - score)
                (zip (map (inner_product (normalize_L2 q)) (vectors idx))
                     (map int [0 ..< length (vectors idx)]))"
  let ?hits = "take (nat ?k) ?all"
  have lq: "length (normalize_L2 q) = dim idx"
    using a by (simp add: normalize_L2_def Let_def)
  have kpos: "0 < ?k" using a by simp
  have knz: "\<not> ?k \<le> 0" using kpos by linarith
  have fs: "faiss_search idx (normalize_L2 q) ?k = Inr ?hits"
    unfolding faiss_search_def using lq knz by (simp only: if_False simp_thms)
  have lall: "length ?all = ntotal idx" by (simp add: ntotal_def)
  have "nat ?k \<le> ntotal idx" by linarith
  then have "length ?hits = nat ?k" using lall by (simp only: length_take min_absorb2)
  then have lhits: "int (length ?hits) = ?k" using kpos by linarith
  have labels: "\<forall>h \<in> set ?hits. 0 \<le> snd h \<and> snd h < int (length (metadata s))"
  proof
    fix h
    assume "h \<in> set ?hits"
    then have "h \<in> set ?all" by (rule in_set_takeD)
    moreover obtain score label where h: "h = (score, label)" by (cases h)
    ultimately have "(score, label) \<in> set ?all" by simp
    then have "(score, label) \<in> set (zip (map (inner_product (normalize_L2 q)) (vectors idx))
                     (map int [0 ..< length (vectors idx)]))"
      by simp
    then have "label \<in> set (map int [0 ..< length (vectors idx)])" by (rule set_zip_rightD)
    then show "0 \<le> snd h \<and> snd h < int (length (metadata s))"
      using a h by (auto simp: ntotal_def)
  qed
  from collect_results_valid [OF labels] obtain results where
    cr: "collect_results (metadata s) ?hits = Inr results" and lr: "length results = length ?hits"
    by blast
  have sr: "search s q k = Inr results"
    using a fs cr by (simp add: search_def)
  show "\<exists>results. search s q k = Inr results
           \<and> int (length results) = min k (int (ntotal idx))
           \<and> sorted_wrt (\<ge>) (map snd results)"
    using sr lr lhits search_sorted [OF sr] by auto
qed


lemma search_demo_store:
  "search demo_store [1, 0] 5 = Inr [(small_chunk, 1), (long_chunk 5, 0)]"
  by (simp add: search_def demo_store_def ntotal_def faiss_search_def normalize_unit_x
      inner_product_def py_index_def Let_def upt_rec)

theorem search_count_and_order_witness:
  "(index (new_VectorStore 2) = None
      \<or> (\<exists>idx. index (new_VectorStore 2) = Some idx \<and> ntotal idx = 0))
   \<and> search (new_VectorStore 2) [1, 0] 5 = Inr []
   \<and> index demo_store = Some \<lparr>dim = 2, vectors = [[1, 0], [0, 1]]\<rparr>
   \<and> 0 < ntotal \<lparr>dim = 2, vectors = [[1, 0], [0, 1]]\<rparr>
   \<and> length (metadata demo_store) = ntotal \<lparr>dim = 2, vectors = [[1, 0], [0, 1]]\<rparr>
   \<and> length [1, 0 :: real] = dim \<lparr>dim = 2, vectors = [[1, 0], [0, 1]]\<rparr>
   \<and> (0 :: int) < 5
   \<and> (\<exists>results. search demo_store [1, 0] 5 = Inr results
         \<and> int (length results) = min 5 (int (ntotal \<lparr>dim = 2, vectors = [[1, 0], [0, 1]]\<rparr>))
         \<and> sorted_wrt (\<ge>) (map snd results))"
proof -
  have e: "index (new_VectorStore 2) = None
      \<or> (\<exists>idx. index (new_VectorStore 2) = Some idx \<and> ntotal idx = 0)"
    by (simp add: new_VectorStore_def ntotal_def)
  have h: "index demo_store = Some \<lparr>dim = 2, vectors = [[1, 0], [0, 1]]\<rparr>
   \<and> 0 < ntotal \<lparr>dim = 2, vectors = [[1, 0], [0, 1]]\<rparr>
   \<and> length (metadata demo_store) = ntotal \<lparr>dim = 2, vectors = [[1, 0], [0, 1]]\<rparr>
   \<and> length [1, 0 :: real] = dim \<lparr>dim = 2, vectors = [[1, 0], [0, 1]]\<rparr>
   \<and> (0 :: int) < 5"
    by (simp add: demo_store_def ntotal_def)
  show ?thesis
    using e h
      search_count_and_order [where s = "new_VectorStore 2" and q = "[1, 0]" and k = 5]
      search_count_and_order [where s = demo_store and q = "[1, 0]" and k = 5
        and idx = "\<lparr>dim = 2, vectors = [[1, 0], [0, 1]]\<rparr>"]
    by blast
qed

lemma normalize_single: "normalize_L2 [1] = [1]"
  by (simp add: normalize_L2_def)

lemma lopsided_store_eq:
  "lopsided_store = \<lparr>embedding_dim = 2,
                      index = Some \<lparr>dim = 2, vectors = [[1, 0], [0, 1]]\<rparr>,
                      metadata = [small_chunk]\<rparr>"
  by (simp add: lopsided_store_def add_embeddings_def new_VectorStore_def faiss_add_def Let_def
      normalize_unit_x normalize_unit_y)

text \<open>
  Counterexample to C7 as stated: on the non-empty \<open>demo_store\<close> a request for \<open>k = 0\<close>
  results does not return the empty list but fails the index's assertion, and so does a
  query of the wrong dimension; on the store that holds two vectors and one chunk the
  second hit has no chunk and the lookup raises.
\<close>

theorem search_nonempty_counterexample:
  "search demo_store [1, 0] 0 = Inl AssertionError
   \<and> search demo_store [1] 5 = Inl AssertionError
   \<and> search lopsided_store [1, 0] 5 = Inl IndexError"
proof -
  have a: "search demo_store [1, 0] 0 = Inl AssertionError"
    by (simp add: search_def demo_store_def ntotal_def faiss_search_def normalize_unit_x)
  have b: "search demo_store [1] 5 = Inl AssertionError"
    by (simp add: search_def demo_store_def ntotal_def faiss_search_def normalize_single)
  have c: "search lopsided_store [1, 0] 5 = Inl IndexError"
    by (simp add: lopsided_store_eq search_def ntotal_def faiss_search_def normalize_unit_x
        inner_product_def py_index_def Let_def upt_rec)
  from a b c show ?thesis by simp
qed

section \<open>Retrieval policy: properties\<close>

lemma py_max_Max: "xs \<noteq> [] \<Longrightarrow> py_max xs = Max (set xs)"
proof -
  assume "xs \<noteq> []"
  then obtain x ys where xs: "xs = x # ys" by (cases xs) auto
  show ?thesis unfolding xs py_max.simps by (rule Max.set_eq_fold [symmetric])
qed

lemma needs_auto_index_iff:
  "needs_auto_index (map fst r) (map snd r)
     \<longleftrightarrow> \<not> (r \<noteq> [] \<and> auto_index_threshold \<le> Max (set (map snd r)))"
proof (cases "r = []")
  case True
  then show ?thesis by (simp add: needs_auto_index_def)
next
  case False
  then have ne: "map snd r \<noteq> []" "map fst r \<noteq> []" by simp_all
  have m: "py_max (map snd r) = Max (set (map snd r))" using ne(1) by (rule py_max_Max)
  have "needs_auto_index (map fst r) (map snd r)
      \<longleftrightarrow> Max (set (map snd r)) < auto_index_threshold"
    unfolding needs_auto_index_def m using ne by blast
  also have "\<dots> \<longleftrightarrow> \<not> auto_index_threshold \<le> Max (set (map snd r))"
    by (rule linorder_not_le [symmetric])
  finally show ?thesis using False by blast
qed

lemma filter_by_threshold_results:
  assumes "filter_by_threshold (map fst r) (map snd r) = (cs, ss)"
  shows "zip cs ss = filter (\<lambda>(c, sc). MIN_SIMILARITY_THRESHOLD \<le> sc) r
     \<and> length cs = length ss
     \<and> (sorted_wrt (\<ge>) (map snd r) \<longrightarrow> sorted_wrt (\<ge>) ss)"
proof (cases "r = []")
  case True
  with assms show ?thesis by (simp add: filter_by_threshold_def)
next
  case False
  let ?f = "filter (\<lambda>(c, sc). MIN_SIMILARITY_THRESHOLD \<le> sc) r"
  have z: "zip (map fst r) (map snd r) = r" by (rule zip_map_fst_snd)
  have cs: "cs = map fst ?f" and ss: "ss = map snd ?f"
    using assms False by (auto simp: filter_by_threshold_def z Let_def split: if_splits)
  have srt: "sorted_wrt (\<ge>) (map snd r) \<longrightarrow> sorted_wrt (\<ge>) (map snd ?f)"
    by (simp add: sorted_wrt_map sorted_wrt_filter)
  show ?thesis unfolding cs ss using srt by (simp add: zip_map_fst_snd)
qed

lemma clean_demo_page: "clean_text ''Python is a language.'' = ''Python is a language.''"
  by (simp add: clean_text_def strip_def is_space_def is_digit_def)


lemma index_new_content_Inr:
  assumes "index_new_content env qe new cs0 ss0 s = (Inr (chunks, scores), s', evs)"
  shows "\<exists>second. search s' qe TOP_K_RETRIEVAL = Inr second
     \<and> evs = [LowSimilarity, Indexed (length new)]
     \<and> (chunks, scores) = (if second \<noteq> []
                            then filter_by_threshold (map fst second) (map snd second)
                            else filter_by_threshold cs0 ss0)"
proof (cases "embed_passages env (map text_c new)")
  case (Inl e)
  with assms show ?thesis by (simp add: index_new_content_def)
next
  case (Inr embs)
  obtain r1 s1 where ae: "add_embeddings embs new s = (r1, s1)"
    by (cases "add_embeddings embs new s")
  show ?thesis
  proof (cases r1)
    case (Inl e)
    with assms Inr ae show ?thesis by (simp add: index_new_content_def)
  next
    case added: (Inr u)
    show ?thesis
    proof (cases "save_index env s1")
      case (Inl e)
      with assms Inr ae added show ?thesis by (simp add: index_new_content_def)
    next
      case saved: (Inr v)
      show ?thesis
      proof (cases "search s1 qe TOP_K_RETRIEVAL")
        case (Inl e)
        with assms Inr ae added saved show ?thesis by (simp add: index_new_content_def)
      next
        case found: (Inr second)
        from assms Inr ae added saved found
        have "s' = s1" and "evs = [LowSimilarity, Indexed (length new)]"
          and "(chunks, scores) = (if second \<noteq> []
                            then filter_by_threshold (map fst second) (map snd second)
                            else filter_by_threshold cs0 ss0)"
          by (simp_all add: index_new_content_def split: if_splits)
        with found show ?thesis by blast
      qed
    qed
  qed
qed

lemma filter_by_threshold_empty: "filter_by_threshold [] [] = ([], [])"
  by (simp add: filter_by_threshold_def)

lemma retrieve_context_Inr:
  assumes "retrieve_context env query s = (Inr (chunks, scores), s', evs)"
  shows "\<exists>qe first searched.
     embed_query env query = Inr qe
     \<and> search s qe TOP_K_RETRIEVAL = Inr first
     \<and> (LowSimilarity \<notin> set evs
          \<longleftrightarrow> first \<noteq> [] \<and> auto_index_threshold \<le> Max (set (map snd first)))
     \<and> ((\<forall>n. Indexed n \<notin> set evs) \<longrightarrow> searched = first \<and> s' = s)
     \<and> ((\<exists>n. Indexed n \<in> set evs) \<longrightarrow>
          (\<exists>second. search s' qe TOP_K_RETRIEVAL = Inr second
             \<and> searched = (if second \<noteq> [] then second else first)))
     \<and> zip chunks scores = filter (\<lambda>(c, sc). MIN_SIMILARITY_THRESHOLD \<le> sc) searched
     \<and> length chunks = length scores
     \<and> sorted_wrt (\<ge>) scores"
proof -
  obtain qe where qe: "embed_query env query = Inr qe"
  proof (cases "embed_query env query")
    case (Inl e)
    with assms show ?thesis by (simp add: retrieve_context_def)
  next
    case (Inr qe)
    then show ?thesis by (rule that)
  qed
  obtain first where first: "search s qe TOP_K_RETRIEVAL = Inr first"
  proof (cases "search s qe TOP_K_RETRIEVAL")
    case (Inl e)
    with assms qe show ?thesis by (simp add: retrieve_context_def)
  next
    case (Inr first)
    then show ?thesis by (rule that)
  qed
  let ?cs = "map fst first" and ?ss = "map snd first"
  have srt1: "sorted_wrt (\<ge>) (map snd first)" using first by (rule search_sorted)
  have fin: "\<And>searched. filter_by_threshold (map fst searched) (map snd searched) = (chunks, scores)
      \<Longrightarrow> sorted_wrt (\<ge>) (map snd searched)
      \<Longrightarrow> zip chunks scores = filter (\<lambda>(c, sc). MIN_SIMILARITY_THRESHOLD \<le> sc) searched
          \<and> length chunks = length scores \<and> sorted_wrt (\<ge>) scores"
    using filter_by_threshold_results by blast
  show ?thesis
  proof (cases "needs_auto_index ?cs ?ss")
    case False
    with assms qe first have r: "filter_by_threshold ?cs ?ss = (chunks, scores)"
      and st: "s' = s" and lg: "evs = []"
      by (simp_all add: retrieve_context_def Let_def)
    have pol: "first \<noteq> [] \<and> auto_index_threshold \<le> Max (set (map snd first))"
      using False needs_auto_index_iff [of first] by blast
    show ?thesis
      using qe first pol st lg fin [OF r srt1] by (intro exI [of _ qe] exI [of _ first]) simp
  next
    case True
    have pol: "\<not> (first \<noteq> [] \<and> auto_index_threshold \<le> Max (set (map snd first)))"
      using True needs_auto_index_iff [of first] by blast
    obtain new where new: "retrieve_and_chunk env query = Inr new"
    proof (cases "retrieve_and_chunk env query")
      case (Inl e)
      with assms qe first True show ?thesis by (simp add: retrieve_context_def Let_def)
    next
      case (Inr new)
      then show ?thesis by (rule that)
    qed
    show ?thesis
    proof (cases "new = []")
      case True
      with assms qe first \<open>needs_auto_index ?cs ?ss\<close> new
      have r: "filter_by_threshold ?cs ?ss = (chunks, scores)"
        and st: "s' = s" and lg: "evs = [LowSimilarity, NoNewContent]"
        by (simp_all add: retrieve_context_def Let_def)
      show ?thesis
        using qe first pol st lg fin [OF r srt1]
        by (intro exI [of _ qe] exI [of _ first]) simp
    next
      case False
      with assms qe first \<open>needs_auto_index ?cs ?ss\<close> new
      have "index_new_content env qe new ?cs ?ss s = (Inr (chunks, scores), s', evs)"
        by (simp add: retrieve_context_def Let_def)
      from index_new_content_Inr [OF this] obtain second where
        sec: "search s' qe TOP_K_RETRIEVAL = Inr second"
        and lg: "evs = [LowSimilarity, Indexed (length new)]"
        and r: "(chunks, scores) = (if second \<noteq> []
                            then filter_by_threshold (map fst second) (map snd second)
                            else filter_by_threshold ?cs ?ss)"
        by blast
      let ?searched = "if second \<noteq> [] then second else first"
      have srt2: "sorted_wrt (\<ge>) (map snd second)" using sec by (rule search_sorted)
      have r': "filter_by_threshold (map fst ?searched) (map snd ?searched) = (chunks, scores)"
        using r by (simp split: if_splits)
      have srt: "sorted_wrt (\<ge>) (map snd ?searched)" using srt1 srt2 by simp
      show ?thesis
        using qe first pol lg sec fin [OF r' srt]
        by (intro exI [of _ qe] exI [of _ first] exI [of _ ?searched]) auto
    qed
  qed
qed


lemma search_demo_top_k:
  "search demo_store [1, 0] TOP_K_RETRIEVAL = Inr [(small_chunk, 1), (long_chunk 5, 0)]"
  by (simp add: search_def demo_store_def ntotal_def faiss_search_def normalize_unit_x
      inner_product_def py_index_def Let_def upt_rec TOP_K_RETRIEVAL_def)

lemma retrieve_context_demo_skip:
  "retrieve_context demo_env ''q'' demo_store = (Inr ([small_chunk], [1]), demo_store, [])"
  by (simp add: retrieve_context_def demo_env_def search_demo_top_k needs_auto_index_def
      auto_index_threshold_def filter_by_threshold_def MIN_SIMILARITY_THRESHOLD_def Let_def)

lemma index_new_content_events:
  assumes "index_new_content env qe new cs0 ss0 s = (r, s', evs)"
  shows "LowSimilarity \<in> set evs"
proof (cases "embed_passages env (map text_c new)")
  case (Inl e)
  with assms show ?thesis by (auto simp: index_new_content_def)
next
  case (Inr embs)
  obtain r1 s1 where ae: "add_embeddings embs new s = (r1, s1)"
    by (cases "add_embeddings embs new s")
  show ?thesis
  proof (cases r1)
    case (Inl e)
    with assms Inr ae show ?thesis by (auto simp: index_new_content_def)
  next
    case added: (Inr u)
    show ?thesis
    proof (cases "save_index env s1")
      case (Inl e)
      with assms Inr ae added show ?thesis by (auto simp: index_new_content_def)
    next
      case saved: (Inr v)
      show ?thesis
      proof (cases "search s1 qe TOP_K_RETRIEVAL")
        case (Inl e)
        with assms Inr ae added saved show ?thesis by (auto simp: index_new_content_def)
      next
        case (Inr second)
        with assms \<open>embed_passages env (map text_c new) = Inr embs\<close> ae added saved
        show ?thesis by (auto simp: index_new_content_def split: if_splits)
      qed
    qed
  qed
qed

lemma retrieve_context_skip_iff:
  assumes "embed_query env query = Inr qe" and "search s qe TOP_K_RETRIEVAL = Inr first"
    and "retrieve_context env query s = (r, s', evs)"
  shows "(LowSimilarity \<notin> set evs
           \<longleftrightarrow> first \<noteq> [] \<and> auto_index_threshold \<le> Max (set (map snd first)))
    \<and> (LowSimilarity \<notin> set evs \<longrightarrow>
          s' = s \<and> r = Inr (filter_by_threshold (map fst first) (map snd first)))"
proof (cases "needs_auto_index (map fst first) (map snd first)")
  case False
  then have pol: "first \<noteq> [] \<and> auto_index_threshold \<le> Max (set (map snd first))"
    using needs_auto_index_iff [of first] by blast
  from assms False have "evs = []" "s' = s"
    "r = Inr (filter_by_threshold (map fst first) (map snd first))"
    by (simp_all add: retrieve_context_def Let_def)
  with pol show ?thesis by simp
next
  case True
  then have pol: "\<not> (first \<noteq> [] \<and> auto_index_threshold \<le> Max (set (map snd first)))"
    using needs_auto_index_iff [of first] by blast
  have "LowSimilarity \<in> set evs"
  proof (cases "retrieve_and_chunk env query")
    case (Inl e)
    with assms True show ?thesis by (auto simp: retrieve_context_def Let_def)
  next
    case (Inr new)
    show ?thesis
    proof (cases "new = []")
      case True
      with assms \<open>needs_auto_index (map fst first) (map snd first)\<close> Inr show ?thesis
        by (auto simp: retrieve_context_def Let_def)
    next
      case False
      with assms \<open>needs_auto_index (map fst first) (map snd first)\<close> Inr
      have "index_new_content env qe new (map fst first) (map snd first) s = (r, s', evs)"
        by (simp add: retrieve_context_def Let_def)
      then show ?thesis by (rule index_new_content_events)
    qed
  qed
  with pol show ?thesis by blast
qed

lemma retrieve_context_no_new_content:
  assumes "embed_query env query = Inr qe" and "search s qe TOP_K_RETRIEVAL = Inr first"
    and "needs_auto_index (map fst first) (map snd first)"
    and "retrieve_and_chunk env query = Inr []"
  shows "retrieve_context env query s
     = (Inr (filter_by_threshold (map fst first) (map snd first)), s,
        [LowSimilarity, NoNewContent])"
  using assms by (simp add: retrieve_context_def Let_def)

lemma add_embeddings_appends:
  assumes "add_embeddings embs new s = (Inr u, s1)"
  shows "metadata s1 = metadata s @ new
    \<and> embedding_dim s1 = embedding_dim s
    \<and> (\<exists>idx1. index s1 = Some idx1
          \<and> vectors idx1 = (case index s of None \<Rightarrow> [] | Some idx \<Rightarrow> vectors idx)
                             @ map normalize_L2 embs)"
  using assms
  by (cases "index s")
     (auto simp: add_embeddings_def faiss_add_def Let_def split: if_splits)

lemma retrieve_context_reindex:
  assumes "embed_query env query = Inr qe" and "search s qe TOP_K_RETRIEVAL = Inr first"
    and "needs_auto_index (map fst first) (map snd first)"
    and "retrieve_and_chunk env query = Inr new" and "new \<noteq> []"
    and "embed_passages env (map text_c new) = Inr embs"
    and "add_embeddings embs new s = (Inr u, s1)"
    and "save_index env s1 = Inr v"
    and "search s1 qe TOP_K_RETRIEVAL = Inr second"
  shows "retrieve_context env query s
     = (Inr (if second \<noteq> [] then filter_by_threshold (map fst second) (map snd second)
             else filter_by_threshold (map fst first) (map snd first)),
        s1, [LowSimilarity, Indexed (length new)])"
  using assms by (simp add: retrieve_context_def index_new_content_def Let_def)

lemma retrieve_context_fetch_error:
  assumes "embed_query env query = Inr qe" and "search s qe TOP_K_RETRIEVAL = Inr first"
    and "needs_auto_index (map fst first) (map snd first)"
    and "retrieve_and_chunk env query = Inl e"
  shows "retrieve_context env query s = (Inl e, s, [LowSimilarity])"
  using assms by (simp add: retrieve_context_def Let_def)

lemma retrieve_context_reindex_failure:
  assumes "embed_query env query = Inr qe" and "search s qe TOP_K_RETRIEVAL = Inr first"
    and "retrieve_context env query s = (r, s', evs)"
    and "needs_auto_index (map fst first) (map snd first)"
  shows "(\<forall>new e.
                retrieve_and_chunk env query = Inr new \<and> new \<noteq> []
                \<and> embed_passages env (map text_c new) = Inl e
                \<longrightarrow> r = Inl e \<and> s' = s)
          \<and> (\<forall>new embs e s1.
                retrieve_and_chunk env query = Inr new \<and> new \<noteq> []
                \<and> embed_passages env (map text_c new) = Inr embs
                \<and> add_embeddings embs new s = (Inl e, s1)
                \<longrightarrow> r = Inl e \<and> s' = s1)
          \<and> (\<forall>new embs u s1 e.
                retrieve_and_chunk env query = Inr new \<and> new \<noteq> []
                \<and> embed_passages env (map text_c new) = Inr embs
                \<and> add_embeddings embs new s = (Inr u, s1)
                \<and> save_index env s1 = Inl e
                \<longrightarrow> r = Inl e \<and> s' = s1)
          \<and> (\<forall>new embs u s1 v e.
                retrieve_and_chunk env query = Inr new \<and> new \<noteq> []
                \<and> embed_passages env (map text_c new) = Inr embs
                \<and> add_embeddings embs new s = (Inr u, s1)
                \<and> save_index env s1 = Inr v
                \<and> search s1 qe TOP_K_RETRIEVAL = Inl e
                \<longrightarrow> r = Inl e \<and> s' = s1)"
proof (intro conjI allI impI)
  fix new e
  assume "retrieve_and_chunk env query = Inr new \<and> new \<noteq> []
                \<and> embed_passages env (map text_c new) = Inl e"
  with assms show "r = Inl e" and "s' = s"
    by (simp_all add: retrieve_context_def index_new_content_def Let_def)
next
  fix new embs e s1
  assume "retrieve_and_chunk env query = Inr new \<and> new \<noteq> []
                \<and> embed_passages env (map text_c new) = Inr embs
                \<and> add_embeddings embs new s = (Inl e, s1)"
  with assms show "r = Inl e" and "s' = s1"
    by (simp_all add: retrieve_context_def index_new_content_def Let_def)
next
  fix new embs u s1 e
  assume "retrieve_and_chunk env query = Inr new \<and> new \<noteq> []
                \<and> embed_passages env (map text_c new) = Inr embs
                \<and> add_embeddings embs new s = (Inr u, s1)
                \<and> save_index env s1 = Inl e"
  with assms show "r = Inl e" and "s' = s1"
    by (simp_all add: retrieve_context_def index_new_content_def Let_def)
next
  fix new embs u s1 v e
  assume "retrieve_and_chunk env query = Inr new \<and> new \<noteq> []
                \<and> embed_passages env (map text_c new) = Inr embs
                \<and> add_embeddings embs new s = (Inr u, s1)
                \<and> save_index env s1 = Inr v
                \<and> search s1 qe TOP_K_RETRIEVAL = Inl e"
  with assms show "r = Inl e" and "s' = s1"
    by (simp_all add: retrieve_context_def index_new_content_def Let_def)
qed

text \<open>
  C4. For every query whose embedding and first search succeed, \<open>retrieve_context\<close>
  skips the auto-indexing step exactly when the first search is non-empty with a best
  score of at least 0.8: it then returns the filtered first results and leaves the store
  as it was. Otherwise the step takes place: the fetcher is asked for new chunks, and when
  it delivers some and their embedding, addition and saving succeed, the returned store is
  the one that \<open>add_embeddings\<close> produced, it holds the new chunks after the old ones, and
  the search is run again on it (the first results are kept when the second search finds
  nothing); when the fetcher delivers nothing, the first results are used and the store is
  unchanged. A failure of the fetcher, of the embedding, of the addition, of the saving or
  of the second search is what the call raises. Whenever the call returns, the returned
  pair is exactly the searched results whose score is at least
  \<open>MIN_SIMILARITY_THRESHOLD\<close>, in descending order of score.
\<close>

theorem retrieve_context_policy:
  assumes "embed_query env query = Inr qe" and "search s qe TOP_K_RETRIEVAL = Inr first"
    and "retrieve_context env query s = (r, s', evs)"
  shows "(LowSimilarity \<notin> set evs
           \<longleftrightarrow> first \<noteq> [] \<and> auto_index_threshold \<le> Max (set (map snd first)))
    \<and> (LowSimilarity \<notin> set evs \<longrightarrow>
          s' = s \<and> evs = []
          \<and> r = Inr (filter_by_threshold (map fst first) (map snd first)))
    \<and> (LowSimilarity \<in> set evs \<longrightarrow>
          (\<forall>e. retrieve_and_chunk env query = Inl e \<longrightarrow> r = Inl e \<and> s' = s)
          \<and> (retrieve_and_chunk env query = Inr [] \<longrightarrow>
                s' = s \<and> evs = [LowSimilarity, NoNewContent]
                \<and> r = Inr (filter_by_threshold (map fst first) (map snd first)))
          \<and> (\<forall>new embs u s1 v second.
                retrieve_and_chunk env query = Inr new \<and> new \<noteq> []
                \<and> embed_passages env (map text_c new) = Inr embs
                \<and> add_embeddings embs new s = (Inr u, s1)
                \<and> save_index env s1 = Inr v
                \<and> search s1 qe TOP_K_RETRIEVAL = Inr second
                \<longrightarrow> s' = s1
                  \<and> metadata s' = metadata s @ new
                  \<and> evs = [LowSimilarity, Indexed (length new)]
                  \<and> r = Inr (if second \<noteq> []
                             then filter_by_threshold (map fst second) (map snd second)
                             else filter_by_threshold (map fst first) (map snd first)))
          \<and> (\<forall>new e.
                retrieve_and_chunk env query = Inr new \<and> new \<noteq> []
                \<and> embed_passages env (map text_c new) = Inl e
                \<longrightarrow> r = Inl e \<and> s' = s)
          \<and> (\<forall>new embs e s1.
                retrieve_and_chunk env query = Inr new \<and> new \<noteq> []
                \<and> embed_passages env (map text_c new) = Inr embs
                \<and> add_embeddings embs new s = (Inl e, s1)
                \<longrightarrow> r = Inl e \<and> s' = s1)
          \<and> (\<forall>new embs u s1 e.
                retrieve_and_chunk env query = Inr new \<and> new \<noteq> []
                \<and> embed_passages env (map text_c new) = Inr embs
                \<and> add_embeddings embs new s = (Inr u, s1)
                \<and> save_index env s1 = Inl e
                \<longrightarrow> r = Inl e \<and> s' = s1)
          \<and> (\<forall>new embs u s1 v e.
                retrieve_and_chunk env query = Inr new \<and> new \<noteq> []
                \<and> embed_passages env (map text_c new) = Inr embs
                \<and> add_embeddings embs new s = (Inr u, s1)
                \<and> save_index env s1 = Inr v
                \<and> search s1 qe TOP_K_RETRIEVAL = Inl e
                \<longrightarrow> r = Inl e \<and> s' = s1))
    \<and> (\<forall>chunks scores. r = Inr (chunks, scores) \<longrightarrow>
          (\<exists>searched.
             ((\<forall>n. Indexed n \<notin> set evs) \<longrightarrow> searched = first \<and> s' = s)
             \<and> ((\<exists>n. Indexed n \<in> set evs) \<longrightarrow>
                  (\<exists>second. search s' qe TOP_K_RETRIEVAL = Inr second
                     \<and> searched = (if second \<noteq> [] then second else first)))
             \<and> zip chunks scores = filter (\<lambda>(c, sc). MIN_SIMILARITY_THRESHOLD \<le> sc) searched
             \<and> length chunks = length scores
             \<and> sorted_wrt (\<ge>) scores))"
proof -
  note skip = retrieve_context_skip_iff [OF assms]
  have p1: "LowSimilarity \<notin> set evs
           \<longleftrightarrow> first \<noteq> [] \<and> auto_index_threshold \<le> Max (set (map snd first))"
    using skip by blast
  have p2: "LowSimilarity \<notin> set evs \<longrightarrow>
          s' = s \<and> evs = []
          \<and> r = Inr (filter_by_threshold (map fst first) (map snd first))"
  proof
    assume n: "LowSimilarity \<notin> set evs"
    then have "\<not> needs_auto_index (map fst first) (map snd first)"
      using p1 needs_auto_index_iff [of first] by blast
    with assms have "evs = []" by (simp add: retrieve_context_def Let_def)
    with n skip show "s' = s \<and> evs = []
          \<and> r = Inr (filter_by_threshold (map fst first) (map snd first))"
      by blast
  qed
  have p3: "LowSimilarity \<in> set evs \<longrightarrow>
          (\<forall>e. retrieve_and_chunk env query = Inl e \<longrightarrow> r = Inl e \<and> s' = s)
          \<and> (retrieve_and_chunk env query = Inr [] \<longrightarrow>
                s' = s \<and> evs = [LowSimilarity, NoNewContent]
                \<and> r = Inr (filter_by_threshold (map fst first) (map snd first)))
          \<and> (\<forall>new embs u s1 v second.
                retrieve_and_chunk env query = Inr new \<and> new \<noteq> []
                \<and> embed_passages env (map text_c new) = Inr embs
                \<and> add_embeddings embs new s = (Inr u, s1)
                \<and> save_index env s1 = Inr v
                \<and> search s1 qe TOP_K_RETRIEVAL = Inr second
                \<longrightarrow> s' = s1
                  \<and> metadata s' = metadata s @ new
                  \<and> evs = [LowSimilarity, Indexed (length new)]
                  \<and> r = Inr (if second \<noteq> []
                             then filter_by_threshold (map fst second) (map snd second)
                             else filter_by_threshold (map fst first) (map snd first)))
          \<and> (\<forall>new e.
                retrieve_and_chunk env query = Inr new \<and> new \<noteq> []
                \<and> embed_passages env (map text_c new) = Inl e
                \<longrightarrow> r = Inl e \<and> s' = s)
          \<and> (\<forall>new embs e s1.
                retrieve_and_chunk env query = Inr new \<and> new \<noteq> []
                \<and> embed_passages env (map text_c new) = Inr embs
                \<and> add_embeddings embs new s = (Inl e, s1)
                \<longrightarrow> r = Inl e \<and> s' = s1)
          \<and> (\<forall>new embs u s1 e.
                retrieve_and_chunk env query = Inr new \<and> new \<noteq> []
                \<and> embed_passages env (map text_c new) = Inr embs
                \<and> add_embeddings embs new s = (Inr u, s1)
                \<and> save_index env s1 = Inl e
                \<longrightarrow> r = Inl e \<and> s' = s1)
          \<and> (\<forall>new embs u s1 v e.
                retrieve_and_chunk env query = Inr new \<and> new \<noteq> []
                \<and> embed_passages env (map text_c new) = Inr embs
                \<and> add_embeddings embs new s = (Inr u, s1)
                \<and> save_index env s1 = Inr v
                \<and> search s1 qe TOP_K_RETRIEVAL = Inl e
                \<longrightarrow> r = Inl e \<and> s' = s1)"
  proof
    assume "LowSimilarity \<in> set evs"
    then have need: "needs_auto_index (map fst first) (map snd first)"
      using p1 needs_auto_index_iff [of first] by blast
    have a: "\<forall>e. retrieve_and_chunk env query = Inl e \<longrightarrow> r = Inl e \<and> s' = s"
      using retrieve_context_fetch_error [OF assms(1,2) need] assms(3) by auto
    have b: "retrieve_and_chunk env query = Inr [] \<longrightarrow>
                s' = s \<and> evs = [LowSimilarity, NoNewContent]
                \<and> r = Inr (filter_by_threshold (map fst first) (map snd first))"
      using retrieve_context_no_new_content [OF assms(1,2) need] assms(3) by auto
    have c: "\<forall>new embs u s1 v second.
                retrieve_and_chunk env query = Inr new \<and> new \<noteq> []
                \<and> embed_passages env (map text_c new) = Inr embs
                \<and> add_embeddings embs new s = (Inr u, s1)
                \<and> save_index env s1 = Inr v
                \<and> search s1 qe TOP_K_RETRIEVAL = Inr second
                \<longrightarrow> s' = s1
                  \<and> metadata s' = metadata s @ new
                  \<and> evs = [LowSimilarity, Indexed (length new)]
                  \<and> r = Inr (if second \<noteq> []
                             then filter_by_threshold (map fst second) (map snd second)
                             else filter_by_threshold (map fst first) (map snd first))"
    proof (intro allI impI)
      fix new embs u s1 v second
      assume h: "retrieve_and_chunk env query = Inr new \<and> new \<noteq> []
                \<and> embed_passages env (map text_c new) = Inr embs
                \<and> add_embeddings embs new s = (Inr u, s1)
                \<and> save_index env s1 = Inr v
                \<and> search s1 qe TOP_K_RETRIEVAL = Inr second"
      then have "retrieve_context env query s
          = (Inr (if second \<noteq> [] then filter_by_threshold (map fst second) (map snd second)
                  else filter_by_threshold (map fst first) (map snd first)),
             s1, [LowSimilarity, Indexed (length new)])"
        using retrieve_context_reindex [OF assms(1,2) need] by blast
      with assms(3) have e: "s' = s1" "evs = [LowSimilarity, Indexed (length new)]"
        "r = Inr (if second \<noteq> [] then filter_by_threshold (map fst second) (map snd second)
                  else filter_by_threshold (map fst first) (map snd first))"
        by simp_all
      have "metadata s1 = metadata s @ new"
        using h add_embeddings_appends [of embs new s u s1] by blast
      with e show "s' = s1
                  \<and> metadata s' = metadata s @ new
                  \<and> evs = [LowSimilarity, Indexed (length new)]
                  \<and> r = Inr (if second \<noteq> []
                             then filter_by_threshold (map fst second) (map snd second)
                             else filter_by_threshold (map fst first) (map snd first))"
        by simp
    qed
    note fl = retrieve_context_reindex_failure [OF assms need]
    from a b c fl show "(\<forall>e. retrieve_and_chunk env query = Inl e \<longrightarrow> r = Inl e \<and> s' = s)
          \<and> (retrieve_and_chunk env query = Inr [] \<longrightarrow>
                s' = s \<and> evs = [LowSimilarity, NoNewContent]
                \<and> r = Inr (filter_by_threshold (map fst first) (map snd first)))
          \<and> (\<forall>new embs u s1 v second.
                retrieve_and_chunk env query = Inr new \<and> new \<noteq> []
                \<and> embed_passages env (map text_c new) = Inr embs
                \<and> add_embeddings embs new s = (Inr u, s1)
                \<and> save_index env s1 = Inr v
                \<and> search s1 qe TOP_K_RETRIEVAL = Inr second
                \<longrightarrow> s' = s1
                  \<and> metadata s' = metadata s @ new
                  \<and> evs = [LowSimilarity, Indexed (length new)]
                  \<and> r = Inr (if second \<noteq> []
                             then filter_by_threshold (map fst second) (map snd second)
                             else filter_by_threshold (map fst first) (map snd first)))
          \<and> (\<forall>new e.
                retrieve_and_chunk env query = Inr new \<and> new \<noteq> []
                \<and> embed_passages env (map text_c new) = Inl e
                \<longrightarrow> r = Inl e \<and> s' = s)
          \<and> (\<forall>new embs e s1.
                retrieve_and_chunk env query = Inr new \<and> new \<noteq> []
                \<and> embed_passages env (map text_c new) = Inr embs
                \<and> add_embeddings embs new s = (Inl e, s1)
                \<longrightarrow> r = Inl e \<and> s' = s1)
          \<and> (\<forall>new embs u s1 e.
                retrieve_and_chunk env query = Inr new \<and> new \<noteq> []
                \<and> embed_passages env (map text_c new) = Inr embs
                \<and> add_embeddings embs new s = (Inr u, s1)
                \<and> save_index env s1 = Inl e
                \<longrightarrow> r = Inl e \<and> s' = s1)
          \<and> (\<forall>new embs u s1 v e.
                retrieve_and_chunk env query = Inr new \<and> new \<noteq> []
                \<and> embed_passages env (map text_c new) = Inr embs
                \<and> add_embeddings embs new s = (Inr u, s1)
                \<and> save_index env s1 = Inr v
                \<and> search s1 qe TOP_K_RETRIEVAL = Inl e
                \<longrightarrow> r = Inl e \<and> s' = s1)"
      by blast
  qed
  have p4: "\<forall>chunks scores. r = Inr (chunks, scores) \<longrightarrow>
          (\<exists>searched.
             ((\<forall>n. Indexed n \<notin> set evs) \<longrightarrow> searched = first \<and> s' = s)
             \<and> ((\<exists>n. Indexed n \<in> set evs) \<longrightarrow>
                  (\<exists>second. search s' qe TOP_K_RETRIEVAL = Inr second
                     \<and> searched = (if second \<noteq> [] then second else first)))
             \<and> zip chunks scores = filter (\<lambda>(c, sc). MIN_SIMILARITY_THRESHOLD \<le> sc) searched
             \<and> length chunks = length scores
             \<and> sorted_wrt (\<ge>) scores)"
  proof (intro allI impI)
    fix chunks scores
    assume "r = Inr (chunks, scores)"
    with assms(3) have "retrieve_context env query s = (Inr (chunks, scores), s', evs)" by simp
    from retrieve_context_Inr [OF this] assms(1,2)
    show "\<exists>searched.
             ((\<forall>n. Indexed n \<notin> set evs) \<longrightarrow> searched = first \<and> s' = s)
             \<and> ((\<exists>n. Indexed n \<in> set evs) \<longrightarrow>
                  (\<exists>second. search s' qe TOP_K_RETRIEVAL = Inr second
                     \<and> searched = (if second \<noteq> [] then second else first)))
             \<and> zip chunks scores = filter (\<lambda>(c, sc). MIN_SIMILARITY_THRESHOLD \<le> sc) searched
             \<and> length chunks = length scores
             \<and> sorted_wrt (\<ge>) scores"
      by auto
  qed
  from p1 p2 p3 p4 show ?thesis by (intro conjI)
qed

lemma retrieve_and_chunk_indexing:
  "retrieve_and_chunk indexing_env ''q'' = Inr [python_chunk]"
  by (simp add: retrieve_and_chunk_def search_wikipedia_def indexing_env_def demo_env_def
      get_page_content_def clean_demo_page chunk_text_def CHUNK_SIZE_def python_chunk_def)

lemma add_embeddings_indexing:
  "add_embeddings [[1, 0]] [python_chunk] (new_VectorStore 2) = (Inr (), indexed_store)"
  by (simp add: add_embeddings_def new_VectorStore_def faiss_add_def Let_def
      normalize_unit_x indexed_store_def)

lemma search_indexed_store:
  "search indexed_store [1, 0] TOP_K_RETRIEVAL = Inr [(python_chunk, 1)]"
  by (simp add: search_def indexed_store_def ntotal_def faiss_search_def normalize_unit_x
      inner_product_def py_index_def Let_def upt_rec TOP_K_RETRIEVAL_def)

theorem retrieve_context_policy_witness:
  "embed_query demo_env ''q'' = Inr [1, 0]
   \<and> search demo_store [1, 0] TOP_K_RETRIEVAL = Inr [(small_chunk, 1), (long_chunk 5, 0)]
   \<and> auto_index_threshold \<le> Max (set (map snd [(small_chunk, 1 :: real), (long_chunk 5, 0)]))
   \<and> retrieve_context demo_env ''q'' demo_store = (Inr ([small_chunk], [1]), demo_store, [])
   \<and> embed_query indexing_env ''q'' = Inr [1, 0]
   \<and> search (new_VectorStore 2) [1, 0] TOP_K_RETRIEVAL = Inr []
   \<and> retrieve_and_chunk indexing_env ''q'' = Inr [python_chunk]
   \<and> embed_passages indexing_env (map text_c [python_chunk]) = Inr [[1, 0]]
   \<and> add_embeddings [[1, 0]] [python_chunk] (new_VectorStore 2) = (Inr (), indexed_store)
   \<and> save_index indexing_env indexed_store = Inr ()
   \<and> search indexed_store [1, 0] TOP_K_RETRIEVAL = Inr [(python_chunk, 1)]
   \<and> retrieve_context indexing_env ''q'' (new_VectorStore 2)
       = (Inr ([python_chunk], [1]), indexed_store, [LowSimilarity, Indexed 1])
   \<and> metadata indexed_store = metadata (new_VectorStore 2) @ [python_chunk]
   \<and> save_index full_disk_env indexed_store = Inl (OtherException ''disk full'')
   \<and> fst (retrieve_context full_disk_env ''q'' (new_VectorStore 2))
       = Inl (OtherException ''disk full'')
   \<and> fst (snd (retrieve_context full_disk_env ''q'' (new_VectorStore 2))) = indexed_store"
proof -
  have q: "embed_query demo_env ''q'' = Inr [1, 0]" by (simp add: demo_env_def)
  have s: "search demo_store [1, 0] TOP_K_RETRIEVAL = Inr [(small_chunk, 1), (long_chunk 5, 0)]"
    by (rule search_demo_top_k)
  have skip: "auto_index_threshold \<le> Max (set (map snd [(small_chunk, 1 :: real), (long_chunk 5, 0)]))"
    using retrieve_context_policy [OF q s retrieve_context_demo_skip] by simp
  have q2: "embed_query indexing_env ''q'' = Inr [1, 0]"
    by (simp add: indexing_env_def demo_env_def)
  have f2: "search (new_VectorStore 2) [1, 0] TOP_K_RETRIEVAL = Inr []"
    by (simp add: search_def new_VectorStore_def ntotal_def)
  have rc2: "retrieve_and_chunk indexing_env ''q'' = Inr [python_chunk]"
    by (rule retrieve_and_chunk_indexing)
  have ep: "embed_passages indexing_env (map text_c [python_chunk]) = Inr [[1, 0]]"
    by (simp add: indexing_env_def)
  have ae: "add_embeddings [[1, 0]] [python_chunk] (new_VectorStore 2) = (Inr (), indexed_store)"
    by (rule add_embeddings_indexing)
  have sv: "save_index indexing_env indexed_store = Inr ()"
    by (simp add: save_index_def indexed_store_def indexing_env_def demo_env_def)
  have s2: "search indexed_store [1, 0] TOP_K_RETRIEVAL = Inr [(python_chunk, 1)]"
    by (rule search_indexed_store)
  have flt: "filter_by_threshold (map fst [(python_chunk, 1 :: real)]) (map snd [(python_chunk, 1 :: real)])
      = ([python_chunk], [1])"
    by (simp add: filter_by_threshold_def MIN_SIMILARITY_THRESHOLD_def)
  obtain r s' evs where rc: "retrieve_context indexing_env ''q'' (new_VectorStore 2) = (r, s', evs)"
    by (cases "retrieve_context indexing_env ''q'' (new_VectorStore 2)")
  note pol = retrieve_context_policy [OF q2 f2 rc]
  from pol [THEN conjunct1] have low: "LowSimilarity \<in> set evs" by simp
  note re = pol [THEN conjunct2, THEN conjunct2, THEN conjunct1, THEN mp, OF low,
      THEN conjunct2, THEN conjunct2, THEN conjunct1,
      THEN spec, THEN spec, THEN spec, THEN spec, THEN spec, THEN spec, THEN mp]
  have prem: "retrieve_and_chunk indexing_env ''q'' = Inr [python_chunk] \<and> [python_chunk] \<noteq> []
                \<and> embed_passages indexing_env (map text_c [python_chunk]) = Inr [[1, 0]]
                \<and> add_embeddings [[1, 0]] [python_chunk] (new_VectorStore 2) = (Inr (), indexed_store)
                \<and> save_index indexing_env indexed_store = Inr ()
                \<and> search indexed_store [1, 0] TOP_K_RETRIEVAL = Inr [(python_chunk, 1)]"
    using rc2 ep ae sv s2 by (intro conjI) simp_all
  note out = re [OF prem]
  have r1: "s' = indexed_store" using out by (rule conjunct1)
  have r2: "metadata s' = metadata (new_VectorStore 2) @ [python_chunk]"
    using out by (rule conjunct2 [THEN conjunct1])
  have r3: "evs = [LowSimilarity, Indexed 1]" using out by simp
  have r4': "r = Inr ([python_chunk], [1])" using out flt by simp
  have done_eq: "retrieve_context indexing_env ''q'' (new_VectorStore 2)
       = (Inr ([python_chunk], [1]), indexed_store, [LowSimilarity, Indexed 1])"
    unfolding rc r1 r3 r4' by simp
  have md: "metadata indexed_store = metadata (new_VectorStore 2) @ [python_chunk]"
    using r2 unfolding r1 .
  have q3: "embed_query full_disk_env ''q'' = Inr [1, 0]"
    by (simp add: full_disk_env_def indexing_env_def demo_env_def)
  have rc3: "retrieve_and_chunk full_disk_env ''q'' = Inr [python_chunk]"
    by (simp add: retrieve_and_chunk_def search_wikipedia_def full_disk_env_def
        indexing_env_def demo_env_def get_page_content_def clean_demo_page chunk_text_def
        CHUNK_SIZE_def python_chunk_def)
  have ep3: "embed_passages full_disk_env (map text_c [python_chunk]) = Inr [[1, 0]]"
    by (simp add: full_disk_env_def indexing_env_def)
  have sv3: "save_index full_disk_env indexed_store = Inl (OtherException ''disk full'')"
    by (simp add: save_index_def indexed_store_def full_disk_env_def)
  obtain r3 s3 evs3 where
    rcf: "retrieve_context full_disk_env ''q'' (new_VectorStore 2) = (r3, s3, evs3)"
    by (cases "retrieve_context full_disk_env ''q'' (new_VectorStore 2)")
  note pol3 = retrieve_context_policy [OF q3 f2 rcf]
  from pol3 [THEN conjunct1] have low3: "LowSimilarity \<in> set evs3" by simp
  note sf = pol3 [THEN conjunct2, THEN conjunct2, THEN conjunct1, THEN mp, OF low3,
      THEN conjunct2, THEN conjunct2, THEN conjunct2, THEN conjunct2, THEN conjunct2,
      THEN conjunct1, THEN spec, THEN spec, THEN spec, THEN spec, THEN spec, THEN mp]
  have prem3: "retrieve_and_chunk full_disk_env ''q'' = Inr [python_chunk] \<and> [python_chunk] \<noteq> []
                \<and> embed_passages full_disk_env (map text_c [python_chunk]) = Inr [[1, 0]]
                \<and> add_embeddings [[1, 0]] [python_chunk] (new_VectorStore 2) = (Inr (), indexed_store)
                \<and> save_index full_disk_env indexed_store = Inl (OtherException ''disk full'')"
    using rc3 ep3 ae sv3 by (intro conjI) simp_all
  note out3 = sf [OF prem3]
  have f1: "fst (retrieve_context full_disk_env ''q'' (new_VectorStore 2))
       = Inl (OtherException ''disk full'')"
    unfolding rcf using out3 by simp
  have f2': "fst (snd (retrieve_context full_disk_env ''q'' (new_VectorStore 2))) = indexed_store"
    unfolding rcf using out3 by simp
  from q s skip retrieve_context_demo_skip q2 f2 rc2 ep ae sv s2 done_eq md sv3 f1 f2'
  show ?thesis by (intro conjI)
qed

lemma search_new_store: "search (new_VectorStore n) qe k = Inr []"
  by (simp add: search_def new_VectorStore_def ntotal_def)

lemma retrieve_and_chunk_demo:
  "retrieve_and_chunk demo_env ''q'' =
     Inr [\<lparr>text_c = ''Python is a language.'', title = ''Python'',
           url = ''https://en.wikipedia.org/wiki/Python'', chunk_id = 0,
           start_pos = 0, end_pos = 21\<rparr>]"
  by (simp add: retrieve_and_chunk_def search_wikipedia_def demo_env_def get_page_content_def
      clean_demo_page chunk_text_def CHUNK_SIZE_def)

text \<open>
  Counterexample to C1 as stated: with an empty store the policy enters the re-index
  path, Wikipedia delivers one chunk, the embedding of that chunk fails, and the failure
  leaves \<open>retrieve_context\<close> as it is.
\<close>

theorem retrieve_context_embedding_failure_counterexample:
  "retrieve_context demo_env ''q'' (new_VectorStore 2)
     = (Inl (OtherException ''embedding service down''), new_VectorStore 2, [LowSimilarity])"
proof -
  have eq: "embed_query demo_env ''q'' = Inr [1, 0]" by (simp add: demo_env_def)
  have ep: "\<And>ps. embed_passages demo_env ps = Inl (OtherException ''embedding service down'')"
    by (simp add: demo_env_def)
  show ?thesis
    by (simp add: retrieve_context_def eq search_new_store needs_auto_index_def
        retrieve_and_chunk_demo index_new_content_def ep)
qed

lemma get_page_content_all_fail:
  assumes "\<forall>t. \<exists>e. wikipedia_page env t = Inl e"
  shows "get_page_content env t = None"
proof -
  from assms obtain e where e: "wikipedia_page env t = Inl e" by blast
  show ?thesis
  proof (cases e)
    case (WikipediaException w)
    show ?thesis
    proof (cases w)
      case (DisambiguationError options)
      show ?thesis
      proof (cases options)
        case Nil
        with e WikipediaException DisambiguationError show ?thesis
          by (simp add: get_page_content_def)
      next
        case (Cons opt rest)
        from assms obtain e' where "wikipedia_page env opt = Inl e'" by blast
        with e WikipediaException DisambiguationError Cons show ?thesis
          by (simp add: get_page_content_def)
      qed
    qed (use e WikipediaException in \<open>simp_all add: get_page_content_def\<close>)
  qed (use e in \<open>simp_all add: get_page_content_def\<close>)
qed

lemma process_pages_all_fail:
  "\<forall>t. \<exists>e. wikipedia_page env t = Inl e \<Longrightarrow> process_pages env titles = []"
  by (induction titles) (simp_all add: get_page_content_all_fail)

text \<open>
  C1 (amended). On the re-index path, the failures that the fetcher handles itself are
  treated as no new content: when the Wikipedia search raises a \<open>WikipediaException\<close>, or
  when every page load raises (whatever the exception), \<open>retrieve_context\<close> returns
  normally with the filtered results of the first search and leaves the store as it was.
  \<open>retrieve_context\<close> has no handler of its own: when the embedding of the newly fetched
  chunks fails, that exception is what the caller gets.
\<close>

theorem retrieve_context_failures:
  "(embed_query env query = Inr qe \<and> search s qe TOP_K_RETRIEVAL = Inr first
      \<and> needs_auto_index (map fst first) (map snd first)
      \<and> wikipedia_search env query WIKIPEDIA_SEARCH_RESULTS = Inl (WikipediaException w)
      \<longrightarrow> retrieve_context env query s
            = (Inr (filter_by_threshold (map fst first) (map snd first)), s,
               [LowSimilarity, NoNewContent]))
   \<and> (embed_query env query = Inr qe \<and> search s qe TOP_K_RETRIEVAL = Inr first
      \<and> needs_auto_index (map fst first) (map snd first)
      \<and> wikipedia_search env query WIKIPEDIA_SEARCH_RESULTS = Inr titles
      \<and> (\<forall>t. \<exists>e. wikipedia_page env t = Inl e)
      \<longrightarrow> retrieve_context env query s
            = (Inr (filter_by_threshold (map fst first) (map snd first)), s,
               [LowSimilarity, NoNewContent]))
   \<and> (embed_query env query = Inr qe \<and> search s qe TOP_K_RETRIEVAL = Inr first
      \<and> needs_auto_index (map fst first) (map snd first)
      \<and> retrieve_and_chunk env query = Inr new \<and> new \<noteq> []
      \<and> embed_passages env (map text_c new) = Inl e
      \<longrightarrow> retrieve_context env query s = (Inl e, s, [LowSimilarity]))"
proof (intro conjI impI)
  assume a: "embed_query env query = Inr qe \<and> search s qe TOP_K_RETRIEVAL = Inr first
      \<and> needs_auto_index (map fst first) (map snd first)
      \<and> wikipedia_search env query WIKIPEDIA_SEARCH_RESULTS = Inl (WikipediaException w)"
  then have "retrieve_and_chunk env query = Inr []"
    by (simp add: retrieve_and_chunk_def search_wikipedia_def)
  with a show "retrieve_context env query s
            = (Inr (filter_by_threshold (map fst first) (map snd first)), s,
               [LowSimilarity, NoNewContent])"
    by (simp add: retrieve_context_no_new_content)
next
  assume a: "embed_query env query = Inr qe \<and> search s qe TOP_K_RETRIEVAL = Inr first
      \<and> needs_auto_index (map fst first) (map snd first)
      \<and> wikipedia_search env query WIKIPEDIA_SEARCH_RESULTS = Inr titles
      \<and> (\<forall>t. \<exists>e. wikipedia_page env t = Inl e)"
  then have "process_pages env titles = []" by (simp add: process_pages_all_fail)
  with a have "retrieve_and_chunk env query = Inr []"
    by (simp add: retrieve_and_chunk_def search_wikipedia_def)
  with a show "retrieve_context env query s
            = (Inr (filter_by_threshold (map fst first) (map snd first)), s,
               [LowSimilarity, NoNewContent])"
    by (simp add: retrieve_context_no_new_content)
next
  assume a: "embed_query env query = Inr qe \<and> search s qe TOP_K_RETRIEVAL = Inr first
      \<and> needs_auto_index (map fst first) (map snd first)
      \<and> retrieve_and_chunk env query = Inr new \<and> new \<noteq> []
      \<and> embed_passages env (map text_c new) = Inl e"
  then show "retrieve_context env query s = (Inl e, s, [LowSimilarity])"
    by (simp add: retrieve_context_def Let_def index_new_content_def)
qed


theorem retrieve_context_failures_witness:
  "embed_query demo_env ''q'' = Inr [1, 0]
   \<and> search (new_VectorStore 2) [1, 0] TOP_K_RETRIEVAL = Inr []
   \<and> needs_auto_index (map fst []) (map snd [])
   \<and> wikipedia_search
        (demo_env\<lparr>wikipedia_search := \<lambda>q n. Inl (WikipediaException OtherWikipediaException)\<rparr>)
        ''q'' WIKIPEDIA_SEARCH_RESULTS = Inl (WikipediaException OtherWikipediaException)
   \<and> retrieve_context
        (demo_env\<lparr>wikipedia_search := \<lambda>q n. Inl (WikipediaException OtherWikipediaException)\<rparr>)
        ''q'' (new_VectorStore 2)
       = (Inr ([], []), new_VectorStore 2, [LowSimilarity, NoNewContent])
   \<and> wikipedia_search (demo_env\<lparr>wikipedia_page := \<lambda>t. Inl (OtherException ''timeout'')\<rparr>)
        ''q'' WIKIPEDIA_SEARCH_RESULTS = Inr [''Python'']
   \<and> (\<forall>t. \<exists>e. wikipedia_page (demo_env\<lparr>wikipedia_page := \<lambda>t. Inl (OtherException ''timeout'')\<rparr>) t
                = Inl e)
   \<and> retrieve_context (demo_env\<lparr>wikipedia_page := \<lambda>t. Inl (OtherException ''timeout'')\<rparr>)
        ''q'' (new_VectorStore 2)
       = (Inr ([], []), new_VectorStore 2, [LowSimilarity, NoNewContent])
   \<and> retrieve_and_chunk demo_env ''q'' =
        Inr [\<lparr>text_c = ''Python is a language.'', title = ''Python'',
              url = ''https://en.wikipedia.org/wiki/Python'', chunk_id = 0,
              start_pos = 0, end_pos = 21\<rparr>]
   \<and> embed_passages demo_env [''Python is a language.'']
       = Inl (OtherException ''embedding service down'')
   \<and> retrieve_context demo_env ''q'' (new_VectorStore 2)
       = (Inl (OtherException ''embedding service down''), new_VectorStore 2, [LowSimilarity])"
proof -
  let ?a = "demo_env\<lparr>wikipedia_search := \<lambda>q n. Inl (WikipediaException OtherWikipediaException)\<rparr>"
  let ?b = "demo_env\<lparr>wikipedia_page := \<lambda>t. Inl (OtherException ''timeout'')\<rparr>"
  let ?c = "\<lparr>text_c = ''Python is a language.'', title = ''Python'',
              url = ''https://en.wikipedia.org/wiki/Python'', chunk_id = 0,
              start_pos = 0, end_pos = 21\<rparr>"
  have q: "embed_query demo_env ''q'' = Inr [1, 0]" "embed_query ?a ''q'' = Inr [1, 0]"
    "embed_query ?b ''q'' = Inr [1, 0]"
    by (simp_all add: demo_env_def)
  have s: "search (new_VectorStore 2) [1, 0] TOP_K_RETRIEVAL = Inr []"
    by (rule search_new_store)
  have n: "needs_auto_index (map fst []) (map snd [])" by (simp add: needs_auto_index_def)
  have wa: "wikipedia_search ?a ''q'' WIKIPEDIA_SEARCH_RESULTS
      = Inl (WikipediaException OtherWikipediaException)"
    by simp
  have wb: "wikipedia_search ?b ''q'' WIKIPEDIA_SEARCH_RESULTS = Inr [''Python'']"
    by (simp add: demo_env_def)
  have pb: "\<forall>t. \<exists>e. wikipedia_page ?b t = Inl e" by simp
  have rc: "retrieve_and_chunk demo_env ''q'' = Inr [?c]" by (rule retrieve_and_chunk_demo)
  have ne: "[?c] \<noteq> []" by simp
  have ep: "embed_passages demo_env (map text_c [?c]) = Inl (OtherException ''embedding service down'')"
    by (simp add: demo_env_def)
  have f: "filter_by_threshold (map fst []) (map snd []) = ([], [])"
    by (simp add: filter_by_threshold_def)
  have ra: "retrieve_context ?a ''q'' (new_VectorStore 2)
       = (Inr ([], []), new_VectorStore 2, [LowSimilarity, NoNewContent])"
    using retrieve_context_failures [where env = ?a and query = "''q''" and qe = "[1, 0]"
        and s = "new_VectorStore 2" and first = "[]" and w = OtherWikipediaException]
      q(2) s n wa f
    by simp
  have rb: "retrieve_context ?b ''q'' (new_VectorStore 2)
       = (Inr ([], []), new_VectorStore 2, [LowSimilarity, NoNewContent])"
    using retrieve_context_failures [where env = ?b and query = "''q''" and qe = "[1, 0]"
        and s = "new_VectorStore 2" and first = "[]" and titles = "[''Python'']"]
      q(3) s n wb pb f
    by simp
  have rcx: "retrieve_context demo_env ''q'' (new_VectorStore 2)
       = (Inl (OtherException ''embedding service down''), new_VectorStore 2, [LowSimilarity])"
    using retrieve_context_failures [where env = demo_env and query = "''q''" and qe = "[1, 0]"
        and s = "new_VectorStore 2" and first = "[]" and new = "[?c]"
        and e = "OtherException ''embedding service down''"]
      q(1) s n rc ne ep
    by simp
  show ?thesis
    using q(1) s n wa ra wb pb rb rc ep rcx by simp
qed

section \<open>Conversation memory: properties\<close>

lemma count_tokens_nonneg: "0 \<le> count_tokens mm t"
  by (auto simp: count_tokens_def le_max_iff_disj split: option.splits)

lemma count_message_tokens_pos: "4 \<le> count_message_tokens mm m"
  using count_tokens_nonneg [of mm "content m"] count_tokens_nonneg [of mm]
  by (auto simp: count_message_tokens_def Let_def split: option.splits)

lemma sum_costs_nonneg: "0 \<le> sum_list (map (count_message_tokens mm) ms)"
proof (induction ms)
  case Nil
  then show ?case by simp
next
  case (Cons m ms)
  then show ?case using count_message_tokens_pos [of mm m] by simp
qed

lemma select_recent_spec:
  "\<exists>k \<le> length ms.
     select_recent mm avail ms used acc = rev (take k ms) @ acc
     \<and> (0 < k \<longrightarrow> used + sum_list (map (count_message_tokens mm) (take k ms)) \<le> avail)
     \<and> (ms \<noteq> [] \<and> used + count_message_tokens mm (hd ms) \<le> avail \<longrightarrow> 0 < k)"
proof (induction ms arbitrary: used acc)
  case Nil
  then show ?case by simp
next
  case (Cons m ms)
  show ?case
  proof (cases "used + count_message_tokens mm m \<le> avail")
    case False
    then show ?thesis by (intro exI [of _ 0]) (simp add: Let_def)
  next
    case True
    from Cons [of "used + count_message_tokens mm m" "m # acc"] obtain k where
      k: "k \<le> length ms"
      and r: "select_recent mm avail ms (used + count_message_tokens mm m) (m # acc)
          = rev (take k ms) @ m # acc"
      and b: "0 < k \<longrightarrow> used + count_message_tokens mm m
          + sum_list (map (count_message_tokens mm) (take k ms)) \<le> avail"
      by blast
    have bound: "used + sum_list (map (count_message_tokens mm) (take (Suc k) (m # ms))) \<le> avail"
    proof (cases "0 < k")
      case True
      with b show ?thesis by (simp add: add.assoc)
    next
      case False
      with \<open>used + count_message_tokens mm m \<le> avail\<close> show ?thesis by simp
    qed
    show ?thesis
      using True k r bound by (intro exI [of _ "Suc k"]) (simp add: Let_def)
  qed
qed

lemma sum_costs_drop:
  "sum_list (map (count_message_tokens mm) (drop n ms))
     \<le> sum_list (map (count_message_tokens mm) ms)"
proof -
  have "sum_list (map (count_message_tokens mm) ms)
      = sum_list (map (count_message_tokens mm) (take n ms))
        + sum_list (map (count_message_tokens mm) (drop n ms))"
    by (metis append_take_drop_id map_append sum_list.append)
  then show ?thesis using sum_costs_nonneg [of mm "take n ms"] by linarith
qed

lemma apply_truncation_strategy_spec:
  assumes "0 < max_history (config mm)"
  shows "suffix (apply_truncation_strategy mm msgs avail) msgs
    \<and> (apply_truncation_strategy mm msgs avail \<noteq> [] \<longrightarrow>
         sum_list (map (count_message_tokens mm) (apply_truncation_strategy mm msgs avail)) \<le> avail)
    \<and> (msgs \<noteq> [] \<and> count_message_tokens mm (last msgs) \<le> avail \<longrightarrow>
         apply_truncation_strategy mm msgs avail \<noteq> []
         \<and> last (apply_truncation_strategy mm msgs avail) = last msgs)"
proof (cases "msgs = []")
  case True
  then show ?thesis by (simp add: apply_truncation_strategy_def)
next
  case False
  let ?r = "select_recent mm avail (rev msgs) 0 []"
  from select_recent_spec [of "rev msgs" mm avail 0 "[]"] obtain k where
    k: "k \<le> length msgs"
    and r: "?r = rev (take k (rev msgs))"
    and b: "0 < k \<longrightarrow> sum_list (map (count_message_tokens mm) (take k (rev msgs))) \<le> avail"
    and h: "count_message_tokens mm (hd (rev msgs)) \<le> avail \<longrightarrow> 0 < k"
    using False by auto
  have r': "?r = drop (length msgs - k) msgs"
    unfolding r by (simp add: take_rev)
  have sr: "sum_list (map (count_message_tokens mm) ?r)
      = sum_list (map (count_message_tokens mm) (take k (rev msgs)))"
    unfolding r by (simp add: rev_map [symmetric])
  let ?res = "apply_truncation_strategy mm msgs avail"
  let ?d = "nat (int (length ?r) - max_history (config mm))"
  have res: "?res = (if int (length ?r) > max_history (config mm) then drop ?d ?r else ?r)"
    using False assms by (simp add: apply_truncation_strategy_def slice_from_def Let_def)
  then obtain n where n: "?res = drop n ?r" and nlt: "?r \<noteq> [] \<longrightarrow> n < length ?r"
  proof (cases "int (length ?r) > max_history (config mm)")
    case True
    then have "?d < length ?r" using assms by linarith
    with res True that [of ?d] show ?thesis by simp
  next
    case False
    with res that [of 0] show ?thesis by simp
  qed
  have suf: "suffix ?res msgs"
    unfolding n r' by (simp add: suffix_drop)
  have bound: "?res \<noteq> [] \<longrightarrow> sum_list (map (count_message_tokens mm) ?res) \<le> avail"
  proof
    assume "?res \<noteq> []"
    then have "?r \<noteq> []" unfolding n by auto
    then have "0 < k" unfolding r by auto
    with b sr have "sum_list (map (count_message_tokens mm) ?r) \<le> avail" by simp
    then show "sum_list (map (count_message_tokens mm) ?res) \<le> avail"
      unfolding n using sum_costs_drop [of mm n ?r] by linarith
  qed
  have recent: "msgs \<noteq> [] \<and> count_message_tokens mm (last msgs) \<le> avail \<longrightarrow>
      ?res \<noteq> [] \<and> last ?res = last msgs"
  proof
    assume a: "msgs \<noteq> [] \<and> count_message_tokens mm (last msgs) \<le> avail"
    then have "0 < k" using h by (simp add: hd_rev)
    then have rne: "?r \<noteq> []" unfolding r' using k False by simp
    then have "n < length ?r" using nlt by simp
    then have "?res \<noteq> []" and "last ?res = last ?r" unfolding n by simp_all
    moreover have "last ?r = last msgs"
      using rne unfolding r' by (simp add: last_drop)
    ultimately show "?res \<noteq> [] \<and> last ?res = last msgs" by simp
  qed
  show ?thesis using suf bound recent by blast
qed


lemma system_messages_short:
  "system_messages p = Inr sys \<Longrightarrow> sys = [] \<or> (\<exists>m. sys = [m])"
  by (auto simp: system_messages_def split: option.splits if_splits sum.splits)

text \<open>
  What \<open>prepare_context\<close> selects. Whenever it returns (with \<open>max_history > 0\<close>, as the
  configuration enforces), the returned list is the system prompt, if any, followed by a
  suffix of the non-deleted messages; when that suffix is not empty its per-message costs
  sum to at most the remaining budget, \<open>context_window_tokens\<close> minus the system prompt's
  cost; the reported total is the sum of the per-message costs of the returned list plus
  the structural constant 10; and the most recent message is the last of the returned list
  whenever its cost alone fits the remaining budget.
\<close>

lemma prepare_context_budget:
  assumes "prepare_context mm messages system_prompt = Inr (chat, tokens)"
    and "0 < max_history (config mm)"
  shows "\<exists>sys all_messages hist.
      system_messages system_prompt = Inr sys
    \<and> convert_messages messages = Inr all_messages
    \<and> length sys \<le> 1
    \<and> chat = sys @ hist
    \<and> suffix hist all_messages
    \<and> (hist \<noteq> [] \<longrightarrow>
         sum_list (map (count_message_tokens mm) hist)
           \<le> context_window_tokens (config mm) - sum_list (map (count_message_tokens mm) sys))
    \<and> tokens = sum_list (map (count_message_tokens mm) chat) + 10
    \<and> (sum_list (map (count_message_tokens mm) sys) \<le> context_window_tokens (config mm) \<longrightarrow>
         sum_list (map (count_message_tokens mm) chat) \<le> context_window_tokens (config mm)
         \<and> tokens \<le> context_window_tokens (config mm) + 10)
    \<and> (all_messages \<noteq> []
         \<and> count_message_tokens mm (last all_messages)
             \<le> context_window_tokens (config mm) - sum_list (map (count_message_tokens mm) sys)
         \<longrightarrow> hist \<noteq> [] \<and> last chat = last all_messages)"
proof -
  obtain sys where sys: "system_messages system_prompt = Inr sys"
  proof (cases "system_messages system_prompt")
    case (Inl e)
    with assms(1) show ?thesis by (simp add: prepare_context_def)
  next
    case (Inr sys)
    then show ?thesis by (rule that)
  qed
  obtain all_messages where al: "convert_messages messages = Inr all_messages"
  proof (cases "convert_messages messages")
    case (Inl e)
    with assms(1) sys show ?thesis by (simp add: prepare_context_def)
  next
    case (Inr all_messages)
    then show ?thesis by (rule that)
  qed
  let ?cw = "context_window_tokens (config mm)"
  let ?cost = "\<lambda>ms. sum_list (map (count_message_tokens mm) ms)"
  have short: "sys = [] \<or> (\<exists>m. sys = [m])" using sys by (rule system_messages_short)
  then have avail: "(case sys of [] \<Rightarrow> 0 | m # _ \<Rightarrow> count_message_tokens mm m) = ?cost sys"
    by auto
  let ?hist = "apply_truncation_strategy mm all_messages (?cw - ?cost sys)"
  have "prepare_context mm messages system_prompt = Inr (sys @ ?hist, ?cost (sys @ ?hist) + 10)"
    using sys al avail by (simp add: prepare_context_def Let_def count_messages_tokens_def)
  with assms(1) have "(chat, tokens) = (sys @ ?hist, ?cost (sys @ ?hist) + 10)"
    by (simp only: sum.inject)
  then have chat: "chat = sys @ ?hist" and tok: "tokens = ?cost (sys @ ?hist) + 10"
    by (simp_all only: prod.inject)
  from apply_truncation_strategy_spec [OF assms(2), of all_messages "?cw - ?cost sys"]
  have suf: "suffix ?hist all_messages"
    and bound: "?hist \<noteq> [] \<longrightarrow> ?cost ?hist \<le> ?cw - ?cost sys"
    and recent: "all_messages \<noteq> [] \<and> count_message_tokens mm (last all_messages) \<le> ?cw - ?cost sys
        \<longrightarrow> ?hist \<noteq> [] \<and> last ?hist = last all_messages"
    by blast+
  have fits: "?cost sys \<le> ?cw \<longrightarrow> ?cost (sys @ ?hist) \<le> ?cw"
  proof (cases "?hist = []")
    case True
    then show ?thesis by simp
  next
    case False
    with bound show ?thesis by simp
  qed
  have len: "length sys \<le> 1" using short by auto
  show ?thesis
  proof (rule exI [of _ sys], rule exI [of _ all_messages], rule exI [of _ ?hist], intro conjI)
    show "system_messages system_prompt = Inr sys" by (rule sys)
    show "convert_messages messages = Inr all_messages" by (rule al)
    show "length sys \<le> 1" by (rule len)
    show "chat = sys @ ?hist" by (rule chat)
    show "suffix ?hist all_messages" by (rule suf)
    show "?hist \<noteq> [] \<longrightarrow> ?cost ?hist \<le> ?cw - ?cost sys" by (rule bound)
    show "tokens = ?cost chat + 10" unfolding chat by (rule tok)
    show "?cost sys \<le> ?cw \<longrightarrow> ?cost chat \<le> ?cw \<and> tokens \<le> ?cw + 10"
      unfolding chat tok using fits by simp
    show "all_messages \<noteq> [] \<and> count_message_tokens mm (last all_messages) \<le> ?cw - ?cost sys
        \<longrightarrow> ?hist \<noteq> [] \<and> last chat = last all_messages"
      unfolding chat using recent by simp
  qed
qed

lemma strip_replicate: "\<not> is_space c \<Longrightarrow> strip (replicate n c) = replicate n c"
  by (cases n) (simp_all add: strip_def replicate_append_same [symmetric] del: replicate_Suc)


lemma not_space_b: "\<not> is_space CHR ''b''"
  by (simp add: is_space_def)

lemma convert_overflow_history:
  "convert_messages overflow_history =
     Inr [\<lparr>role = USER, content = ''aaaa'', name = None\<rparr>,
          \<lparr>role = ASSISTANT, content = replicate 64 CHR ''b'', name = None\<rparr>]"
  by (simp add: overflow_history_def parse_role_def new_ChatMessage_def
      strip_replicate not_space_b)
     (simp add: strip_def is_space_def)

lemma cost_old: "count_message_tokens tight_manager \<lparr>role = USER, content = ''aaaa'', name = None\<rparr> = 5"
  by (simp add: count_message_tokens_def count_tokens_def tight_manager_def)

lemma cost_new:
  "count_message_tokens tight_manager
     \<lparr>role = ASSISTANT, content = replicate 64 CHR ''b'', name = None\<rparr> = 20"
  by (simp add: count_message_tokens_def count_tokens_def tight_manager_def)

lemma prepare_overflow_history:
  "prepare_context tight_manager overflow_history None
     = Inr ([\<lparr>role = ASSISTANT, content = replicate 64 CHR ''b'', name = None\<rparr>], 30)"
proof -
  have cfg: "max_history (config tight_manager) = 20"
    "context_window_tokens (config tight_manager) = 20"
    by (simp_all add: tight_manager_def)
  show ?thesis
    by (simp add: prepare_context_def system_messages_def convert_overflow_history
        apply_truncation_strategy_def Let_def cost_old cost_new cfg count_messages_tokens_def)
qed

text \<open>
  C3. When the messages alone overflow the window, the total that \<open>prepare_context\<close>
  reports should not exceed \<open>context_window_tokens\<close>. The code breaks this: the selection
  budgets the per-message costs only and the structural constant 10 is added afterwards.
  With a window of 20 tokens and no system prompt, two messages of cost 5 and 20 overflow
  the window on their own (35 with the structural constant); \<open>prepare_context\<close> keeps the
  most recent one, which alone fits the budget, and reports 30 tokens.
\<close>

theorem prepare_context_reported_total_overrun:
  "convert_messages overflow_history =
     Inr [\<lparr>role = USER, content = ''aaaa'', name = None\<rparr>,
          \<lparr>role = ASSISTANT, content = replicate 64 CHR ''b'', name = None\<rparr>]
   \<and> count_messages_tokens tight_manager
        [\<lparr>role = USER, content = ''aaaa'', name = None\<rparr>,
         \<lparr>role = ASSISTANT, content = replicate 64 CHR ''b'', name = None\<rparr>] = 35
   \<and> context_window_tokens (config tight_manager) = 20
   \<and> prepare_context tight_manager overflow_history None
       = Inr ([\<lparr>role = ASSISTANT, content = replicate 64 CHR ''b'', name = None\<rparr>], 30)
   \<and> \<not> (30 :: int) \<le> context_window_tokens (config tight_manager)"
  by (simp add: convert_overflow_history prepare_overflow_history count_messages_tokens_def
      cost_old cost_new)
     (simp add: tight_manager_def)

end
